theory Spec2Isabelle
  imports Main
begin

section \<open>JavaScript strings\<close>

text \<open>
  A JavaScript string is a sequence of UTF-16 code units. The model uses \<^typ>\<open>string\<close>
  and reads each \<^typ>\<open>char\<close> as one code unit below 256, so the character classes of
  the regular expressions are cut down to that range: \<^verbatim>\<open>\s\<close> is TAB, LF, VT, FF, CR,
  SPACE and NBSP; a line terminator (what \<^verbatim>\<open>.\<close> refuses) is LF or CR.
\<close>

definition is_space :: "char \<Rightarrow> bool" where
  "is_space c \<longleftrightarrow>
     c = CHR 0x09 \<or> c = CHR 0x0A \<or> c = CHR 0x0B \<or> c = CHR 0x0C \<or> c = CHR 0x0D \<or>
     c = CHR '' '' \<or> c = CHR 0xA0"

definition is_line_terminator :: "char \<Rightarrow> bool" where
  "is_line_terminator c \<longleftrightarrow> c = CHR 0x0A \<or> c = CHR 0x0D"

definition is_digit :: "char \<Rightarrow> bool" where
  "is_digit c \<longleftrightarrow> c \<in> set ''0123456789''"

text \<open>\<^verbatim>\<open>s.trim()\<close>\<close>

definition trim :: "string \<Rightarrow> string" where
  "trim s = rev (dropWhile is_space (rev (dropWhile is_space s)))"

text \<open>\<^verbatim>\<open>s.startsWith(p)\<close>\<close>

definition starts_with :: "string \<Rightarrow> string \<Rightarrow> bool" where
  "starts_with p s \<longleftrightarrow> take (length p) s = p"

text \<open>\<^verbatim>\<open>s.includes(t)\<close>\<close>

fun str_includes :: "string \<Rightarrow> string \<Rightarrow> bool" where
  "str_includes [] t = (t = [])"
| "str_includes (c # cs) t = (starts_with t (c # cs) \<or> str_includes cs t)"

text \<open>\<^verbatim>\<open>s.split(sep)\<close> for a separator of one character; the result is never empty.\<close>

fun str_split :: "char \<Rightarrow> string \<Rightarrow> string list" where
  "str_split sep [] = [[]]"
| "str_split sep (c # cs) =
     (if c = sep then [] # str_split sep cs
      else (case str_split sep cs of
              [] \<Rightarrow> [[c]]
            | w # ws \<Rightarrow> (c # w) # ws))"

text \<open>\<^verbatim>\<open>xs.join(sep)\<close>\<close>

fun str_join :: "string \<Rightarrow> string list \<Rightarrow> string" where
  "str_join sep [] = []"
| "str_join sep [x] = x"
| "str_join sep (x # y # ys) = x @ sep @ str_join sep (y # ys)"

text \<open>\<^verbatim>\<open>xs.find(p)\<close>\<close>

fun find_first :: "('a \<Rightarrow> bool) \<Rightarrow> 'a list \<Rightarrow> 'a option" where
  "find_first p [] = None"
| "find_first p (x # xs) = (if p x then Some x else find_first p xs)"

section \<open>The task list parser (src/spec/utils.ts)\<close>

record Task =
  id :: string
  title :: string
  description :: string
  completed :: bool
  requirements :: "string list"
  subtasks :: "string list"

record TaskSection =
  stitle :: string
  tasks :: "Task list"

text \<open>
  The task line pattern \<^verbatim>\<open>/^- \[\s*([ x])\s*\] (\d+\. )?(.+)$/\<close>.

  The checkbox cell is the text between \<^verbatim>\<open>- [\<close> and the first \<^verbatim>\<open>]\<close>: no character
  that \<^verbatim>\<open>\s*([ x])\s*\<close> accepts is a bracket. The cell matches when it is white space
  around one \<^verbatim>\<open>x\<close> (the group captures \<^verbatim>\<open>x\<close>), or white space with a plain space in
  it (the group captures the space). The greedy optional group takes the longest run of
  digits, which must be followed by a full stop and a space, and must leave at least one
  character for \<^verbatim>\<open>(.+)\<close>; otherwise the group is skipped. \<^verbatim>\<open>(.+)$\<close> runs to the end
  of the line and accepts no line terminator.
\<close>

definition checkbox_cell :: "string \<Rightarrow> char option" where
  "checkbox_cell cell =
     (if filter (\<lambda>c. \<not> is_space c) cell = ''x'' then Some CHR ''x''
      else if filter (\<lambda>c. \<not> is_space c) cell = [] \<and> CHR '' '' \<in> set cell then Some CHR '' ''
      else None)"

definition task_match :: "string \<Rightarrow> (char \<times> string option \<times> string) option" where
  "task_match line =
     (if \<not> starts_with ''- ['' line then None
      else
        let rest = drop 3 line;
            cell = takeWhile (\<lambda>c. c \<noteq> CHR '']'') rest;
            after = drop (length cell) rest
        in if \<not> starts_with ''] '' after then None
           else (case checkbox_cell cell of
                   None \<Rightarrow> None
                 | Some box \<Rightarrow>
                     let r = drop 2 after;
                         ds = takeWhile is_digit r;
                         r' = drop (length ds) r
                     in if r = [] \<or> list_ex is_line_terminator r then None
                        else if ds \<noteq> [] \<and> starts_with ''. '' r' \<and> drop 2 r' \<noteq> []
                        then Some (box, Some (ds @ ''. ''), drop 2 r')
                        else Some (box, None, r)))"

text \<open>\<^verbatim>\<open>numberPrefix.replace('.', '')\<close>: the first full stop is removed.\<close>

fun remove_first :: "char \<Rightarrow> string \<Rightarrow> string" where
  "remove_first x [] = []"
| "remove_first x (c # cs) = (if c = x then cs else c # remove_first x cs)"

text \<open>The task built from a matched task line.\<close>

definition new_task :: "char \<times> string option \<times> string \<Rightarrow> Task" where
  "new_task m =
     (case m of (box, numberPrefix, titleText) \<Rightarrow>
        let (taskId, fullTitle) =
              (case numberPrefix of
                 Some p \<Rightarrow> (trim (remove_first CHR ''.'' p), p @ titleText)
               | None \<Rightarrow>
                   (let w = hd (str_split CHR '' '' titleText)
                    in if w \<noteq> [] then w else titleText, titleText))
        in \<lparr> id = taskId, title = trim fullTitle, description = [],
             completed = (box = CHR ''x''), requirements = [], subtasks = [] \<rparr>)"

text \<open>
  The parser's variables. \<^verbatim>\<open>currentSection\<close> is a reference to an element of
  \<^verbatim>\<open>sections\<close>; the model keeps it as the index of that element.
\<close>

record parse_state =
  sections :: "TaskSection list"
  currentSection :: "nat option"
  currentTask :: "Task option"

text \<open>\<^verbatim>\<open>currentSection?.tasks.push(t)\<close>\<close>

definition push_task :: "Task \<Rightarrow> parse_state \<Rightarrow> parse_state" where
  "push_task t st =
     (case currentSection st of
        None \<Rightarrow> st
      | Some i \<Rightarrow>
          st\<lparr> sections :=
                (sections st)[i := (sections st ! i)\<lparr> tasks := tasks (sections st ! i) @ [t] \<rparr>] \<rparr>)"

text \<open>An indented line folded into the current task.\<close>

definition strip_requirements :: "string \<Rightarrow> string" where
  "strip_requirements trimmedLine =
     (let a = dropWhile is_space (drop 14 trimmedLine)
      in if a \<noteq> [] \<and> last a = CHR ''_'' then butlast a else a)"

definition continuation :: "string \<Rightarrow> Task \<Rightarrow> Task" where
  "continuation line t =
     (let trimmedLine = trim line
      in if starts_with ''_Requirements:'' trimmedLine
         then t\<lparr> requirements := map trim (str_split CHR '','' (strip_requirements trimmedLine)) \<rparr>
         else if starts_with ''- '' trimmedLine \<and> \<not> starts_with ''- _'' trimmedLine
         then t\<lparr> subtasks := subtasks t @ [drop 2 trimmedLine] \<rparr>
         else if length trimmedLine > 0
         then (if description t \<noteq> []
               then t\<lparr> description := description t @ [CHR 0x0A] @ trimmedLine \<rparr>
               else t\<lparr> description := trimmedLine \<rparr>)
         else t)"

text \<open>One round of the loop over the lines.\<close>

definition parse_line :: "parse_state \<Rightarrow> string \<Rightarrow> parse_state" where
  "parse_line st line =
     (if starts_with ''## '' line
      then
        let st1 = (case currentTask st of
                     Some t \<Rightarrow> (push_task t st)\<lparr> currentTask := None \<rparr>
                   | None \<Rightarrow> st)
        in st1\<lparr> sections := sections st1 @ [\<lparr> stitle = trim (drop 3 line), tasks = [] \<rparr>],
                currentSection := Some (length (sections st1)) \<rparr>
      else
        (case task_match line of
           Some m \<Rightarrow>
             let st1 = (case currentTask st of Some t \<Rightarrow> push_task t st | None \<Rightarrow> st)
             in (case m of (box, numberPrefix, titleText) \<Rightarrow>
                   if titleText \<noteq> [] then st1\<lparr> currentTask := Some (new_task m) \<rparr> else st1)
         | None \<Rightarrow>
             (case currentTask st of
                Some t \<Rightarrow>
                  if starts_with ''  '' line
                  then st\<lparr> currentTask := Some (continuation line t) \<rparr>
                  else st
              | None \<Rightarrow> st)))"

definition parse_init :: parse_state where
  "parse_init = \<lparr> sections = [], currentSection = None, currentTask = None \<rparr>"

text \<open>After the loop: the last task is added if there is one and a section to hold it.\<close>

definition parse_finish :: "parse_state \<Rightarrow> TaskSection list" where
  "parse_finish st =
     (case currentTask st of
        Some t \<Rightarrow> (if currentSection st \<noteq> None then sections (push_task t st) else sections st)
      | None \<Rightarrow> sections st)"

definition parse_lines :: "string list \<Rightarrow> TaskSection list" where
  "parse_lines ls = parse_finish (foldl parse_line parse_init ls)"

text \<open>\<^verbatim>\<open>parseTasks\<close>, on the text of the tasks file.\<close>

definition parseTasks :: "string \<Rightarrow> TaskSection list" where
  "parseTasks content = parse_lines (str_split CHR 0x0A content)"

definition getAllTasks :: "string \<Rightarrow> Task list" where
  "getAllTasks content = concat (map tasks (parseTasks content))"

definition getNextTask :: "string \<Rightarrow> Task option" where
  "getNextTask content = find_first (\<lambda>t. \<not> completed t) (getAllTasks content)"

definition getTaskById :: "string \<Rightarrow> string \<Rightarrow> Task option" where
  "getTaskById content taskId = find_first (\<lambda>t. id t = taskId) (getAllTasks content)"

definition getIncompleteTasks :: "string \<Rightarrow> Task list" where
  "getIncompleteTasks content = filter (\<lambda>t. \<not> completed t) (getAllTasks content)"

text \<open>The document of the parsing scenario.\<close>

definition scenario_document :: string where
  "scenario_document =
     ''## A'' @ [CHR 0x0A, CHR 0x0A] @
     ''- [ ] 1. Do X'' @ [CHR 0x0A] @
     ''  - sub one'' @ [CHR 0x0A] @
     ''  - sub two'' @ [CHR 0x0A] @
     ''  _Requirements: 1.1, 1.2_'' @ [CHR 0x0A]"

text \<open>A document whose first task line stands above the first section heading.\<close>

definition early_task_document :: string where
  "early_task_document =
     ''- [ ] 1. Early'' @ [CHR 0x0A] @
     ''## A'' @ [CHR 0x0A] @
     ''- [ ] 2. Inside''"

text \<open>A document with one completed and one open task.\<close>

definition completed_task_document :: string where
  "completed_task_document =
     ''## A'' @ [CHR 0x0A] @
     ''- [x] 1. Done'' @ [CHR 0x0A] @
     ''- [ ] 2. Open''"

text \<open>A document with two open tasks.\<close>

definition open_task_document :: string where
  "open_task_document =
     ''# Plan'' @ [CHR 0x0A] @
     ''## A'' @ [CHR 0x0A] @
     ''- [x] 1. One'' @ [CHR 0x0A] @
     ''  - detail'' @ [CHR 0x0A] @
     ''- [  ] 2. Two'' @ [CHR 0x0A] @
     ''- [ ] 3. Three''"

text \<open>A document with an open task line above the first heading and one below it.\<close>

definition early_open_document :: string where
  "early_open_document =
     ''- [ ] 1. Early'' @ [CHR 0x0A] @
     ''## A'' @ [CHR 0x0A] @
     ''- [ ] 1. Inside''"

text \<open>
  Documents in which the title of an open task contains the id of another task, or a
  number that is the id of no task.
\<close>

definition title_contains_id_document :: string where
  "title_contains_id_document =
     ''## A'' @ [CHR 0x0A] @
     ''- [x] 1. Done'' @ [CHR 0x0A] @
     ''- [ ] 2. Open 1''"

definition title_contains_number_document :: string where
  "title_contains_number_document =
     ''## A'' @ [CHR 0x0A] @
     ''- [ ] 2. Fix 9 bugs''"

section \<open>Marking a task as completed (src/spec/utils.ts)\<close>

datatype error =
    SpecNameRequired
  | SpecNotFound string
  | MultipleSpecs string "string list"
  | TaskNotFoundOrCompleted string
  | GitHubTokenMissing
  | GitHubApiFailed string
  | SystemError string
  | OtherError string

text \<open>The \<^verbatim>\<open>code\<close> of a system error, such as \<^verbatim>\<open>ENOENT\<close>; other errors have none.\<close>

definition error_code :: "error \<Rightarrow> string option" where
  "error_code e = (case e of SystemError c \<Rightarrow> Some c | _ \<Rightarrow> None)"

text \<open>
  The unchecked line pattern \<^verbatim>\<open>/^- \[\s*\s*\] (.+)$/\<close>: the cell up to the first
  \<^verbatim>\<open>]\<close> is white space (it may be empty), and the group is the rest of the line after
  the bracket and one space. The result is \<^verbatim>\<open>taskMatch[1]\<close>.
\<close>

definition unchecked_match :: "string \<Rightarrow> string option" where
  "unchecked_match line =
     (if \<not> starts_with ''- ['' line then None
      else
        let rest = drop 3 line;
            cell = takeWhile (\<lambda>c. c \<noteq> CHR '']'') rest;
            after = drop (length cell) rest;
            r = drop 2 after
        in if list_all is_space cell \<and> starts_with ''] '' after \<and> r \<noteq> [] \<and>
              \<not> list_ex is_line_terminator r
           then Some r else None)"

text \<open>\<^verbatim>\<open>taskTitle.match(/^(\d+)\./)\<close>, the group.\<close>

definition id_match :: "string \<Rightarrow> string option" where
  "id_match taskTitle =
     (let ds = takeWhile is_digit taskTitle
      in if ds \<noteq> [] \<and> starts_with ''.'' (drop (length ds) taskTitle) then Some ds else None)"

definition taskIdFromTitle :: "string \<Rightarrow> string" where
  "taskIdFromTitle taskTitle =
     (case id_match taskTitle of
        Some ds \<Rightarrow> ds
      | None \<Rightarrow> hd (str_split CHR '' '' taskTitle))"

text \<open>The test of the loop body: the line is the one to flip.\<close>

definition line_matches :: "string \<Rightarrow> string \<Rightarrow> bool" where
  "line_matches taskId line =
     (if line = [] then False
      else (case unchecked_match line of
              None \<Rightarrow> False
            | Some taskTitle \<Rightarrow>
                taskTitle \<noteq> [] \<and>
                (taskIdFromTitle taskTitle = taskId \<or> str_includes taskTitle taskId)))"

text \<open>
  \<^verbatim>\<open>line.replace(/- \[\s*\s*\]/, "- [x]")\<close>: the leftmost place where the pattern
  matches is rewritten. At a place that starts with \<^verbatim>\<open>- [\<close> the pattern matches when
  the longest run of white space is followed by \<^verbatim>\<open>]\<close>.
\<close>

fun replace_checkbox :: "string \<Rightarrow> string" where
  "replace_checkbox [] = []"
| "replace_checkbox (c # cs) =
     (let cell = takeWhile is_space (drop 3 (c # cs))
      in if starts_with ''- ['' (c # cs) \<and> starts_with '']'' (drop (3 + length cell) (c # cs))
         then ''- [x]'' @ drop (4 + length cell) (c # cs)
         else c # replace_checkbox cs)"

text \<open>
  The loop over the lines, which stops at the first line it flips. The result is the
  array of lines and the flag \<^verbatim>\<open>modified\<close>.
\<close>

fun mark_lines :: "string \<Rightarrow> string list \<Rightarrow> string list \<times> bool" where
  "mark_lines taskId [] = ([], False)"
| "mark_lines taskId (line # ls) =
     (if line_matches taskId line then (replace_checkbox line # ls, True)
      else (case mark_lines taskId ls of (ls', modified) \<Rightarrow> (line # ls', modified)))"

text \<open>
  The tasks file, which is taken to exist: its text and the number of times it has been
  written. \<^verbatim>\<open>markTaskAsCompleted\<close> throws before it writes when no line was flipped.
\<close>

record tasks_file =
  file_content :: string
  write_count :: nat

definition writeFile :: "string \<Rightarrow> tasks_file \<Rightarrow> tasks_file" where
  "writeFile s f = f\<lparr> file_content := s, write_count := Suc (write_count f) \<rparr>"

definition markTaskAsCompleted :: "string \<Rightarrow> tasks_file \<Rightarrow> (error + unit) \<times> tasks_file" where
  "markTaskAsCompleted taskId f =
     (case mark_lines taskId (str_split CHR 0x0A (file_content f)) of
        (ls, modified) \<Rightarrow>
          if \<not> modified then (Inl (TaskNotFoundOrCompleted taskId), f)
          else (Inr (), writeFile (str_join [CHR 0x0A] ls) f))"

section \<open>Notions used to state the properties of the parser\<close>

text \<open>A section heading line, as the parser tests it.\<close>

definition is_heading :: "string \<Rightarrow> bool" where
  "is_heading line \<longleftrightarrow> starts_with ''## '' line"

text \<open>The number of completed tasks of a parse result.\<close>

definition completed_count :: "TaskSection list \<Rightarrow> nat" where
  "completed_count secs = length (filter completed (concat (map tasks secs)))"

text \<open>A task line whose checkbox is checked.\<close>

definition is_completed_task_line :: "string \<Rightarrow> bool" where
  "is_completed_task_line line =
     (case task_match line of
        Some (box, numberPrefix, titleText) \<Rightarrow> box = CHR ''x'' \<and> titleText \<noteq> []
      | None \<Rightarrow> False)"

text \<open>
  The checked task lines that stand below a section heading; the flag tells whether a
  heading has been seen.
\<close>

fun completed_lines :: "bool \<Rightarrow> string list \<Rightarrow> nat" where
  "completed_lines inSection [] = 0"
| "completed_lines inSection (l # ls) =
     (if is_heading l then completed_lines True ls
      else (if inSection \<and> is_completed_task_line l then 1 else 0) + completed_lines inSection ls)"

text \<open>The invariant of the parser loop: the current section is one of the sections.\<close>

definition section_ok :: "parse_state \<Rightarrow> bool" where
  "section_ok st = (case currentSection st of None \<Rightarrow> True | Some i \<Rightarrow> i < length (sections st))"

text \<open>The completed tasks that the loop has pushed, or holds as the current task of a section.\<close>

definition pending_count :: "parse_state \<Rightarrow> nat" where
  "pending_count st =
     completed_count (sections st) +
     (case currentTask st of
        Some t \<Rightarrow> if currentSection st \<noteq> None \<and> completed t then 1 else 0
      | None \<Rightarrow> 0)"

text \<open>
  The documents the round trip is stated for: no checkbox bullet stands above the first
  section heading, so every task line belongs to a section.
\<close>

definition tasks_in_sections :: "string list \<Rightarrow> bool" where
  "tasks_in_sections ls \<longleftrightarrow>
     (\<forall>l\<in>set (takeWhile (\<lambda>l. \<not> is_heading l) ls). \<not> starts_with ''- ['' l)"

text \<open>A task of the parse result and the task line it was read from.\<close>

definition from_line :: "Task \<Rightarrow> string \<Rightarrow> bool" where
  "from_line t l \<longleftrightarrow>
     (\<exists>m. task_match l = Some m \<and> id t = id (new_task m) \<and> completed t = completed (new_task m))"

text \<open>Every task the loop holds was read from a line of the set.\<close>

definition tasks_from :: "string set \<Rightarrow> parse_state \<Rightarrow> bool" where
  "tasks_from S st \<longleftrightarrow>
     (\<forall>t\<in>set (concat (map tasks (sections st))). \<exists>l\<in>S. from_line t l) \<and>
     (\<forall>t. currentTask st = Some t \<longrightarrow> (\<exists>l\<in>S. from_line t l))"

text \<open>The file of the document with two open tasks, and its first open task.\<close>

definition open_task_file :: tasks_file where
  "open_task_file = \<lparr> file_content = open_task_document, write_count = 0 \<rparr>"

definition open_task :: Task where
  "open_task = \<lparr> id = ''2'', title = ''2. Two'', description = [], completed = False,
                  requirements = [], subtasks = [] \<rparr>"

section \<open>The PR context (src/pr-context.ts)\<close>

record PRContext =
  number :: int
  branch :: string
  commentId :: "string option"
  isEnabled :: bool

text \<open>The environment variables of the process.\<close>

type_synonym env = "string \<Rightarrow> string option"

text \<open>\<^verbatim>\<open>x || d\<close> for a string that may be undefined: the empty string is falsy too.\<close>

definition or_default :: "string option \<Rightarrow> string \<Rightarrow> string" where
  "or_default x d = (case x of None \<Rightarrow> d | Some s \<Rightarrow> if s = [] then d else s)"

text \<open>
  \<^verbatim>\<open>parseInt(s, 10)\<close>: leading white space is skipped, one sign is read, and the longest
  run of decimal digits is the value; with no digit the result is NaN, which is \<open>None\<close>
  here. The model keeps the exact integer (JavaScript rounds a value above \<open>2^53\<close> to a
  double, which does not change whether it is zero).
\<close>

definition digit_value :: "char \<Rightarrow> nat" where
  "digit_value c = of_char c - 48"

definition parseInt :: "string \<Rightarrow> int option" where
  "parseInt s =
     (let t = dropWhile is_space s;
          negative = starts_with ''-'' t;
          u = (if starts_with ''-'' t \<or> starts_with ''+'' t then tl t else t);
          z = takeWhile is_digit u
      in if z = [] then None
         else Some ((if negative then - 1 else 1) * int (foldl (\<lambda>a c. 10 * a + digit_value c) 0 z)))"

datatype warning = MissingPRContext

definition disabled_context :: PRContext where
  "disabled_context = \<lparr> number = 0, branch = [], commentId = None, isEnabled = False \<rparr>"

text \<open>
  \<^verbatim>\<open>getPRContext\<close>: the context and what was written with \<^verbatim>\<open>console.warn\<close>. The source has
  no \<^verbatim>\<open>throw\<close> and calls nothing that throws, so the model has no error result.
  \<^verbatim>\<open>!prNumber\<close> holds for NaN and for zero.
\<close>

definition getPRContext :: "env \<Rightarrow> PRContext \<times> warning list" where
  "getPRContext e =
     (let isPRMode = (e ''USTA_PR_MODE'' = Some ''true'')
      in if \<not> isPRMode then (disabled_context, [])
         else
           let prNumber = parseInt (or_default (e ''USTA_PR_NUMBER'') ''0'');
               prBranch = or_default (e ''USTA_PR_BRANCH'') [];
               cid = e ''USTA_COMMENT_ID''
           in (case prNumber of
                 None \<Rightarrow> (disabled_context, [MissingPRContext])
               | Some n \<Rightarrow>
                   if n = 0 \<or> prBranch = [] then (disabled_context, [MissingPRContext])
                   else (\<lparr> number = n, branch = prBranch, commentId = cid, isEnabled = True \<rparr>, [])))"

text \<open>Environments of the scenarios.\<close>

definition env_of :: "(string \<times> string) list \<Rightarrow> env" where
  "env_of kvs = map_of kvs"

definition pr_env :: env where
  "pr_env = env_of [(''USTA_PR_MODE'', ''true''), (''USTA_PR_NUMBER'', ''123''),
                    (''USTA_PR_BRANCH'', ''feature-branch''), (''USTA_COMMENT_ID'', ''456'')]"

definition pr_env_no_number :: env where
  "pr_env_no_number = env_of [(''USTA_PR_MODE'', ''true''), (''USTA_PR_BRANCH'', ''feature-branch'')]"

section \<open>Resolving the spec directory (src/spec/utils.ts)\<close>

text \<open>
  \<^verbatim>\<open>s.toLowerCase()\<close> on code units below 256: the letters A to Z and the capital letters
  of Latin-1 (0xC0 to 0xDE, but not the multiplication sign 0xD7) move up by 32.
\<close>

definition to_lower_char :: "char \<Rightarrow> char" where
  "to_lower_char c =
     (let n = (of_char c :: nat)
      in if (65 \<le> n \<and> n \<le> 90) \<or> (192 \<le> n \<and> n \<le> 222 \<and> n \<noteq> 215)
         then char_of (n + 32) else c)"

definition toLowerCase :: "string \<Rightarrow> string" where
  "toLowerCase s = map to_lower_char s"

text \<open>The letters that the flag \<^verbatim>\<open>i\<close> of a regular expression identifies with a to z.\<close>

definition ascii_lower :: "char \<Rightarrow> char" where
  "ascii_lower c =
     (let n = (of_char c :: nat) in if 65 \<le> n \<and> n \<le> 90 then char_of (n + 32) else c)"

text \<open>\<^verbatim>\<open>s.endsWith(t)\<close>\<close>

definition ends_with :: "string \<Rightarrow> string \<Rightarrow> bool" where
  "ends_with t s \<longleftrightarrow> starts_with (rev t) (rev s)"

text \<open>\<^verbatim>\<open>specName.replace(/\.(md|txt|yaml|yml|json)$/i, '')\<close>\<close>

definition strip_extension :: "string \<Rightarrow> string" where
  "strip_extension s =
     (case find_first (\<lambda>ext. ends_with ext (map ascii_lower s))
             [''.md'', ''.txt'', ''.yaml'', ''.yml'', ''.json''] of
        Some ext \<Rightarrow> take (length s - length ext) s
      | None \<Rightarrow> s)"

text \<open>
  The functions of the module \<^verbatim>\<open>path\<close> of Node.js are parameters of the model, and so
  is the file system: the working directory, what \<^verbatim>\<open>fs.stat\<close> gives for a path and what
  \<^verbatim>\<open>fs.readdir\<close> gives for a directory.
\<close>

record node_path =
  isAbsolute :: "string \<Rightarrow> bool"
  resolve :: "string \<Rightarrow> string \<Rightarrow> string"
  dirname :: "string \<Rightarrow> string"
  basename :: "string \<Rightarrow> string"
  path_join :: "string list \<Rightarrow> string"

datatype file_kind = Directory | RegularFile | OtherKind

record file_system =
  cwd :: string
  stat :: "string \<Rightarrow> error + file_kind"
  readdir :: "string \<Rightarrow> error + string list"

text \<open>A string as a condition: the empty string is falsy.\<close>

definition truthy :: "string option \<Rightarrow> bool" where
  "truthy x = (case x of None \<Rightarrow> False | Some s \<Rightarrow> s \<noteq> [])"

text \<open>The entries of the specs directory that are directories; an entry whose \<^verbatim>\<open>stat\<close> throws is skipped.\<close>

definition directories_of :: "node_path \<Rightarrow> file_system \<Rightarrow> string \<Rightarrow> string list \<Rightarrow> string list" where
  "directories_of P F specsDir entries =
     filter (\<lambda>entry. stat F (path_join P [specsDir, entry]) = Inr Directory) entries"

text \<open>The filter of the fuzzy match: one name contains the other, in lower case.\<close>

definition fuzzyMatches :: "string \<Rightarrow> string list \<Rightarrow> string list" where
  "fuzzyMatches searchTerm directories =
     filter (\<lambda>dir. str_includes (toLowerCase dir) (toLowerCase searchTerm) \<or>
                   str_includes (toLowerCase searchTerm) (toLowerCase dir)) directories"

text \<open>
  \<^verbatim>\<open>fuzzyMatchSpec\<close>. The \<^verbatim>\<open>catch\<close> turns a missing specs directory into \<^verbatim>\<open>null\<close> and
  throws every other error again, the one of several matches too. The error of several
  matches carries the search term and the matches, which its message lists.
\<close>

definition fuzzyMatchSpec :: "node_path \<Rightarrow> file_system \<Rightarrow> string \<Rightarrow> string \<Rightarrow> error + string option" where
  "fuzzyMatchSpec P F searchTerm specsDir =
     (case
        (case readdir F specsDir of
           Inl e \<Rightarrow> Inl e
         | Inr entries \<Rightarrow>
             let lowerSearchTerm = toLowerCase searchTerm;
                 directories = directories_of P F specsDir entries;
                 exactMatch = find_first (\<lambda>dir. dir = searchTerm) directories;
                 caseInsensitiveMatch = find_first (\<lambda>dir. toLowerCase dir = lowerSearchTerm) directories;
                 ms = fuzzyMatches searchTerm directories
             in if truthy exactMatch
                then Inr (Some (path_join P [specsDir, the exactMatch]))
                else if truthy caseInsensitiveMatch
                then Inr (Some (path_join P [specsDir, the caseInsensitiveMatch]))
                else if length ms = 1 \<and> truthy (Some (hd ms))
                then Inr (Some (path_join P [specsDir, hd ms]))
                else if length ms > 1
                then Inl (MultipleSpecs searchTerm ms)
                else Inr None)
      of
        Inl e \<Rightarrow> (if error_code e = Some ''ENOENT'' then Inr None else Inl e)
      | Inr r \<Rightarrow> Inr r)"

text \<open>The first two strategies of \<^verbatim>\<open>getSpecPath\<close>; \<open>None\<close> when the strategy gives nothing.\<close>

definition absolute_strategy :: "node_path \<Rightarrow> file_system \<Rightarrow> string \<Rightarrow> string option" where
  "absolute_strategy P F specName =
     (case stat F specName of
        Inl e \<Rightarrow> None
      | Inr RegularFile \<Rightarrow>
          (case stat F (dirname P specName) of
             Inr Directory \<Rightarrow> Some (dirname P specName)
           | _ \<Rightarrow> None)
      | Inr Directory \<Rightarrow> Some specName
      | Inr OtherKind \<Rightarrow> None)"

definition relative_strategy :: "node_path \<Rightarrow> file_system \<Rightarrow> string \<Rightarrow> string option" where
  "relative_strategy P F specName =
     (let relativePath = resolve P (cwd F) specName
      in case stat F relativePath of
           Inl e \<Rightarrow> None
         | Inr Directory \<Rightarrow> Some relativePath
         | Inr RegularFile \<Rightarrow> Some (dirname P relativePath)
         | Inr OtherKind \<Rightarrow> None)"

definition getSpecPath :: "node_path \<Rightarrow> file_system \<Rightarrow> string option \<Rightarrow> error + string" where
  "getSpecPath P F specName0 =
     (if \<not> truthy specName0 then Inl SpecNameRequired
      else
        let specName = the specName0
        in case (if isAbsolute P specName then absolute_strategy P F specName else None) of
             Some dir \<Rightarrow> Inr dir
           | None \<Rightarrow>
               (case (if CHR ''/'' \<in> set specName \<or> CHR 0x5C \<in> set specName
                      then relative_strategy P F specName else None) of
                  Some dir \<Rightarrow> Inr dir
                | None \<Rightarrow>
                    let cleanSpecName = strip_extension specName;
                        baseName = basename P cleanSpecName;
                        specsDir = path_join P [cwd F, ''.usta'', ''specs'']
                    in (case fuzzyMatchSpec P F baseName specsDir of
                          Inl e \<Rightarrow> Inl e
                        | Inr fuzzyMatch \<Rightarrow>
                            if truthy fuzzyMatch then Inr (the fuzzyMatch)
                            else Inl (SpecNotFound specName))))"

text \<open>
  A POSIX reading of the module \<^verbatim>\<open>path\<close> for paths that are already normal, and a file
  system whose specs directory holds the given directories.
\<close>

definition simple_path :: node_path where
  "simple_path =
     \<lparr> isAbsolute = starts_with ''/'',
       resolve = (\<lambda>a b. a @ ''/'' @ b),
       dirname = (\<lambda>p. rev (tl (dropWhile (\<lambda>c. c \<noteq> CHR ''/'') (rev p)))),
       basename = (\<lambda>p. rev (takeWhile (\<lambda>c. c \<noteq> CHR ''/'') (rev p))),
       path_join = str_join ''/'' \<rparr>"

definition specs_fs :: "string list \<Rightarrow> file_system" where
  "specs_fs dirs =
     \<lparr> cwd = ''/work'',
       stat = (\<lambda>p. if p \<in> set (map (\<lambda>d. ''/work/.usta/specs/'' @ d) dirs) then Inr Directory
                   else Inl (SystemError ''ENOENT'')),
       readdir = (\<lambda>p. if p = ''/work/.usta/specs'' then Inr dirs else Inl (SystemError ''ENOENT'')) \<rparr>"

section \<open>The progress of a spec (src/spec/utils.ts)\<close>

text \<open>
  The numbers of JavaScript are IEEE 754 doubles. A positive double in the normal range is
  \<open>m * 2 ^ e\<close> with \<open>2 ^ 52 \<le> m < 2 ^ 53\<close>; the model keeps the pair \<open>(m, e)\<close>, and
  \<open>(0, 0)\<close> for zero. Every operation gives the double nearest to the exact result, the
  one with the even \<open>m\<close> when two doubles are equally near.
\<close>

type_synonym double = "nat \<times> int"

text \<open>The number of binary digits of a natural number.\<close>

fun bit_length :: "nat \<Rightarrow> nat" where
  "bit_length n = (if n = 0 then 0 else Suc (bit_length (n div 2)))"

text \<open>
  The double nearest to the fraction \<open>num / den\<close>, for \<open>den > 0\<close>. The exponent \<open>e\<close> is the
  one for which \<open>num / (den * 2 ^ e)\<close> lies between \<open>2 ^ 52\<close> and \<open>2 ^ 53\<close>; it is found
  from the numbers of digits of \<open>num\<close> and \<open>den\<close>.
\<close>

definition scaled :: "nat \<Rightarrow> nat \<Rightarrow> int \<Rightarrow> nat \<times> nat" where
  "scaled num den e = (if e \<ge> 0 then (num, den * 2 ^ nat e) else (num * 2 ^ nat (- e), den))"

definition nearest_double :: "nat \<Rightarrow> nat \<Rightarrow> double" where
  "nearest_double num den =
     (if num = 0 then (0, 0)
      else
        let l = int (bit_length num) - int (bit_length den);
            e = (case scaled num den (l - 52) of (n, d) \<Rightarrow> if 2 ^ 52 * d \<le> n then l - 52 else l - 53);
            (n, d) = scaled num den e;
            m0 = n div d;
            r = n mod d;
            m = (if 2 * r > d \<or> (2 * r = d \<and> odd m0) then m0 + 1 else m0)
        in if m = 2 ^ 53 then (2 ^ 52, e + 1) else (m, e))"

text \<open>\<^verbatim>\<open>a / b\<close> for two whole numbers below \<open>2 ^ 53\<close>, and \<^verbatim>\<open>x * 100\<close> for a double.\<close>

definition js_divide :: "nat \<Rightarrow> nat \<Rightarrow> double" where
  "js_divide a b = nearest_double a b"

definition js_times :: "double \<Rightarrow> nat \<Rightarrow> double" where
  "js_times x k =
     (case x of (m, e) \<Rightarrow>
        if e \<ge> 0 then nearest_double (m * k * 2 ^ nat e) 1
        else nearest_double (m * k) (2 ^ nat (- e)))"

text \<open>
  \<^verbatim>\<open>Math.round(x)\<close> for a double that is not negative: the whole number nearest to \<open>x\<close>,
  the greater one when two are equally near; that is the floor of \<open>x + 1/2\<close>.
\<close>

definition math_round :: "double \<Rightarrow> nat" where
  "math_round x =
     (case x of (m, e) \<Rightarrow>
        if e \<ge> 0 then m * 2 ^ nat e
        else (2 * m + 2 ^ nat (- e)) div (2 * 2 ^ nat (- e)))"

record progress =
  completed_tasks :: nat
  total :: nat
  percentage :: nat

text \<open>\<^verbatim>\<open>getTaskProgress\<close>, from the list of all tasks and from the text of the tasks file.\<close>

definition progress_of_tasks :: "Task list \<Rightarrow> progress" where
  "progress_of_tasks ts =
     (let c = length (filter completed ts);
          n = length ts
      in \<lparr> completed_tasks = c, total = n,
           percentage = (if n > 0 then math_round (js_times (js_divide c n) 100) else 0) \<rparr>)"

definition getTaskProgress :: "string \<Rightarrow> progress" where
  "getTaskProgress content = progress_of_tasks (getAllTasks content)"

text \<open>The whole number nearest to \<open>100 * c / n\<close>, the greater one when two are equally near.\<close>

definition exact_percentage :: "nat \<Rightarrow> nat \<Rightarrow> nat" where
  "exact_percentage c n = (200 * c + n) div (2 * n)"

text \<open>A document with one section of 40 tasks, of which the first 23 are completed.\<close>

definition forty_task_document :: string where
  "forty_task_document =
     ''## Tasks'' @
     concat (replicate 23 (CHR 0x0A # ''- [x] Done'')) @
     concat (replicate 17 (CHR 0x0A # ''- [ ] Open''))"

section \<open>The comment manager (class CommentManager)\<close>

datatype task_status = Pending | Working | Testing | Completed | Failed

datatype overall_status = Running | RunCompleted | RunFailed

text \<open>
  The class in its version with \<^verbatim>\<open>completedOnAttempt\<close>, without the periodic updates,
  which \<^verbatim>\<open>runUsta\<close> does not start. A \<^verbatim>\<open>Date\<close> is a number of milliseconds. The
  fields \<^verbatim>\<open>title\<close>, \<^verbatim>\<open>tasks\<close>, \<^verbatim>\<open>startTime\<close>, \<^verbatim>\<open>endTime\<close> and \<^verbatim>\<open>context\<close> carry a
  prefix where the name is taken.
\<close>

record TaskProgress =
  taskId :: string
  progress_title :: string
  status :: task_status
  startTime :: "nat option"
  endTime :: "nat option"
  attempt :: nat
  completedOnAttempt :: "nat option"

record CommentState =
  specName :: string
  progress_tasks :: "TaskProgress list"
  overallStatus :: overall_status
  run_startTime :: nat
  run_endTime :: "nat option"

record CommentManager =
  pr_context :: PRContext
  state :: CommentState

text \<open>
  \<^verbatim>\<open>updateTaskStatus(taskId, status, attempt?)\<close>, at the time \<open>now\<close>. The entry that
  \<^verbatim>\<open>find\<close> returns is changed in place: it is the first entry with the id.
\<close>

definition set_status :: "nat \<Rightarrow> task_status \<Rightarrow> nat option \<Rightarrow> TaskProgress \<Rightarrow> TaskProgress" where
  "set_status now st att task =
     (let t1 = task\<lparr> status := st \<rparr>;
          t2 = (case att of Some a \<Rightarrow> t1\<lparr> attempt := a \<rparr> | None \<Rightarrow> t1)
      in if st = Working \<and> startTime t2 = None then t2\<lparr> startTime := Some now \<rparr>
         else if st = Completed
         then (let t3 = (if endTime t2 = None then t2\<lparr> endTime := Some now \<rparr> else t2)
               in t3\<lparr> completedOnAttempt := Some (if attempt t3 \<noteq> 0 then attempt t3 else 1) \<rparr>)
         else if st = Failed \<and> endTime t2 = None then t2\<lparr> endTime := Some now \<rparr>
         else t2)"

fun update_first :: "('a \<Rightarrow> bool) \<Rightarrow> ('a \<Rightarrow> 'a) \<Rightarrow> 'a list \<Rightarrow> 'a list" where
  "update_first p f [] = []"
| "update_first p f (x # xs) = (if p x then f x # xs else x # update_first p f xs)"

definition updateTaskStatus ::
  "nat \<Rightarrow> string \<Rightarrow> task_status \<Rightarrow> nat option \<Rightarrow> CommentManager \<Rightarrow> CommentManager" where
  "updateTaskStatus now tid st att m =
     m\<lparr> state := (state m)\<lparr> progress_tasks :=
           update_first (\<lambda>t. taskId t = tid) (set_status now st att) (progress_tasks (state m)) \<rparr> \<rparr>"

definition setOverallStatus :: "nat \<Rightarrow> overall_status \<Rightarrow> CommentManager \<Rightarrow> CommentManager" where
  "setOverallStatus now st m =
     (let s1 = (state m)\<lparr> overallStatus := st \<rparr>
      in m\<lparr> state := (if st \<noteq> Running \<and> run_endTime s1 = None
                        then s1\<lparr> run_endTime := Some now \<rparr> else s1) \<rparr>)"

text \<open>What the process does to the outside, in order.\<close>

datatype event =
    Spawn string "string list"
  | ConsoleLog string
  | ConsoleError string error
  | GitCommitAndPush string string
  | GitRollback
  | Attempt nat
  | SetFailed error
  | ProcessExit nat

text \<open>
  How the \<^verbatim>\<open>curl\<close> child process ends: it closes with an exit code (none when a signal
  killed it), its standard output and its standard error, or it cannot be spawned.
\<close>

datatype curl_outcome = CurlClose "int option" string string | CurlError error

text \<open>\<^verbatim>\<open>try { body } catch (error) { handler(error) }\<close>, with the events of both.\<close>

definition try_catch ::
  "(error + 'a) \<times> event list \<Rightarrow> (error \<Rightarrow> (error + 'a) \<times> event list) \<Rightarrow> (error + 'a) \<times> event list" where
  "try_catch body handler =
     (case body of
        (Inr v, evs) \<Rightarrow> (Inr v, evs)
      | (Inl e, evs) \<Rightarrow> (case handler e of (r, evs') \<Rightarrow> (r, evs @ evs')))"

text \<open>
  \<^verbatim>\<open>callGitHubAPI(method, endpoint, data)\<close>: the token is read from the environment; the
  promise resolves with the output of \<^verbatim>\<open>curl\<close> when it exits with code 0 (parsed as JSON
  when it can be) and is rejected otherwise.
\<close>

definition callGitHubAPI ::
  "env \<Rightarrow> curl_outcome \<Rightarrow> string \<Rightarrow> string \<Rightarrow> string \<Rightarrow> (error + string) \<times> event list" where
  "callGitHubAPI e curl method endpoint body =
     (let token = or_default (e ''GITHUB_TOKEN'') []
      in if token = [] then (Inl GitHubTokenMissing, [])
         else
           let spawn = Spawn ''curl''
                 [''-X'', method,
                  ''-H'', ''Accept: application/vnd.github.v3+json'',
                  ''-H'', ''Authorization: Bearer '' @ token,
                  ''-H'', ''Content-Type: application/json'',
                  ''https://api.github.com'' @ endpoint,
                  ''-d'', body]
           in (case curl of
                 CurlClose code out err \<Rightarrow>
                   if code = Some 0 then (Inr out, [spawn])
                   else (Inl (GitHubApiFailed err), [spawn])
               | CurlError err \<Rightarrow> (Inl err, [spawn])))"

text \<open>
  \<^verbatim>\<open>updateComment()\<close>. The data of the request is the parameter \<open>render\<close>: it stands for
  \<^verbatim>\<open>JSON.stringify\<close> of the object whose body is the text of \<^verbatim>\<open>generateCommentBody()\<close>,
  which builds a string from the state, the clock and the environment and throws nothing.
  An environment variable that is not set prints as \<^verbatim>\<open>undefined\<close> in the endpoint.
\<close>

definition updateComment ::
  "env \<Rightarrow> (CommentState \<Rightarrow> string) \<Rightarrow> curl_outcome \<Rightarrow> CommentManager \<Rightarrow> (error + unit) \<times> event list" where
  "updateComment e render curl m =
     (if \<not> isEnabled (pr_context m) \<or> or_default (commentId (pr_context m)) [] = []
      then (Inr (), [])
      else
        let commentBody = render (state m);
            endpoint = ''/repos/'' @ (case e ''GITHUB_REPOSITORY'' of None \<Rightarrow> ''undefined'' | Some r \<Rightarrow> r) @
                       ''/issues/comments/'' @ or_default (commentId (pr_context m)) []
        in try_catch
             (case callGitHubAPI e curl ''PATCH'' endpoint commentBody of
                (Inl err, evs) \<Rightarrow> (Inl err, evs)
              | (Inr v, evs) \<Rightarrow> (Inr (), evs @ [ConsoleLog ''Updated comment with current progress'']))
             (\<lambda>err. (Inr (), [ConsoleError ''Failed to update comment'' err])))"

text \<open>\<^verbatim>\<open>createCommentManager\<close>, at the time \<open>now\<close>, with the events of its first update.\<close>

definition initial_progress :: "Task \<Rightarrow> TaskProgress" where
  "initial_progress task =
     \<lparr> taskId = id task, progress_title = title task,
       status = (if completed task then Completed else Pending),
       startTime = None, endTime = None, attempt = 1,
       completedOnAttempt = (if completed task then Some 1 else None) \<rparr>"

definition createCommentManager ::
  "env \<Rightarrow> (CommentState \<Rightarrow> string) \<Rightarrow> curl_outcome \<Rightarrow> nat \<Rightarrow> PRContext \<Rightarrow> string \<Rightarrow> Task list \<Rightarrow>
   CommentManager \<times> event list" where
  "createCommentManager e render curl now ctx name allTasks =
     (let manager = \<lparr> pr_context = ctx,
                       state = \<lparr> specName = name, progress_tasks = map initial_progress allTasks,
                                 overallStatus = Running, run_startTime = now, run_endTime = None \<rparr> \<rparr>
      in if isEnabled ctx then (manager, snd (updateComment e render curl manager))
         else (manager, []))"

section \<open>The retry loop of the orchestrator (src/run-usta.ts)\<close>

text \<open>The phrase that the test prompt asks for (src/prepare-prompt.ts).\<close>

definition TEST_SUCCESS_PHRASE :: string where
  "TEST_SUCCESS_PHRASE = ''__TASK_TEST_COMPLETED__''"

text \<open>\<^verbatim>\<open>TestOutputCapture\<close>: the captured output is one string.\<close>

definition capture_write :: "string \<Rightarrow> string \<Rightarrow> string" where
  "capture_write output d = output @ d"

definition containsTestSuccess :: "string \<Rightarrow> bool" where
  "containsTestSuccess output = str_includes output TEST_SUCCESS_PHRASE"

definition capture_clear :: string where
  "capture_clear = []"

text \<open>
  What the collaborators do in one attempt: each call (\<^verbatim>\<open>preparePrompt\<close>,
  \<^verbatim>\<open>createManualTestPrompt\<close>, \<^verbatim>\<open>runClaude\<close>, \<^verbatim>\<open>gitCommitAndPush\<close>, \<^verbatim>\<open>gitRollback\<close> in the
  \<^verbatim>\<open>try\<close> and in the \<^verbatim>\<open>catch\<close>) returns or throws. A run of the agent on the test prompt
  hands its output to the capture in pieces.
\<close>

record attempt_io =
  preparePrompt_result :: "error + string"
  runClaude_work :: "error + unit"
  createManualTestPrompt_result :: "error + string"
  runClaude_test :: "error + string list"
  commit_result :: "error + unit"
  rollback_result :: "error + unit"
  handler_rollback_result :: "error + unit"

text \<open>
  The world around the run of one task: the environment, the text of the comment, how the
  \<^verbatim>\<open>curl\<close> process ends and what the clock shows (both by the number of events so far),
  the PR context, the collaborators of each attempt (by its number), and the commit before
  the task.
\<close>

record world =
  process_env :: env
  body_of :: "CommentState \<Rightarrow> string"
  net :: "nat \<Rightarrow> curl_outcome"
  clock :: "nat \<Rightarrow> nat"
  prContext :: PRContext
  attempts :: "nat \<Rightarrow> attempt_io"
  before_commit :: "error + unit"

record orch_state =
  manager :: CommentManager
  events :: "event list"

text \<open>A statement returns a value, throws, or ends the process.\<close>

datatype 'a outcome = Returned 'a | Thrown error | Exited nat

type_synonym 'a step = "orch_state \<Rightarrow> 'a outcome \<times> orch_state"

definition ret :: "'a \<Rightarrow> 'a step" where
  "ret v s = (Returned v, s)"

definition bind :: "'a step \<Rightarrow> ('a \<Rightarrow> 'b step) \<Rightarrow> 'b step" where
  "bind m f s =
     (case m s of
        (Returned v, s') \<Rightarrow> f v s'
      | (Thrown e, s') \<Rightarrow> (Thrown e, s')
      | (Exited n, s') \<Rightarrow> (Exited n, s'))"

definition catch :: "'a step \<Rightarrow> (error \<Rightarrow> 'a step) \<Rightarrow> 'a step" where
  "catch m h s =
     (case m s of
        (Thrown e, s') \<Rightarrow> h e s'
      | (Returned v, s') \<Rightarrow> (Returned v, s')
      | (Exited n, s') \<Rightarrow> (Exited n, s'))"

definition emit :: "event list \<Rightarrow> unit step" where
  "emit evs s = (Returned (), s\<lparr> events := events s @ evs \<rparr>)"

definition call :: "error + 'a \<Rightarrow> 'a step" where
  "call r s = (case r of Inl e \<Rightarrow> (Thrown e, s) | Inr v \<Rightarrow> (Returned v, s))"

definition process_exit :: "nat \<Rightarrow> 'a step" where
  "process_exit n s = (Exited n, s\<lparr> events := events s @ [ProcessExit n] \<rparr>)"

definition do_updateTaskStatus :: "world \<Rightarrow> string \<Rightarrow> task_status \<Rightarrow> nat option \<Rightarrow> unit step" where
  "do_updateTaskStatus w tid st att s =
     (Returned (), s\<lparr> manager := updateTaskStatus (clock w (length (events s))) tid st att (manager s) \<rparr>)"

definition do_setOverallStatus :: "world \<Rightarrow> overall_status \<Rightarrow> unit step" where
  "do_setOverallStatus w st s =
     (Returned (), s\<lparr> manager := setOverallStatus (clock w (length (events s))) st (manager s) \<rparr>)"

definition do_updateComment :: "world \<Rightarrow> unit step" where
  "do_updateComment w s =
     (case updateComment (process_env w) (body_of w) (net w (length (events s))) (manager s) of
        (r, evs) \<Rightarrow> call r (s\<lparr> events := events s @ evs \<rparr>))"

definition gitCommitAndPush :: "string \<Rightarrow> string \<Rightarrow> error + unit \<Rightarrow> unit step" where
  "gitCommitAndPush message br r = bind (emit [GitCommitAndPush message br]) (\<lambda>_. call r)"

definition gitRollback :: "error + unit \<Rightarrow> unit step" where
  "gitRollback r = bind (emit [GitRollback]) (\<lambda>_. call r)"

text \<open>The body of the \<^verbatim>\<open>try\<close> of one attempt; its value is \<^verbatim>\<open>taskCompleted\<close>.\<close>

definition try_body :: "world \<Rightarrow> Task \<Rightarrow> nat \<Rightarrow> bool step" where
  "try_body w task tries =
     bind (call (preparePrompt_result (attempts w tries))) (\<lambda>promptFile.
     bind (call (runClaude_work (attempts w tries))) (\<lambda>_.
     bind (do_updateTaskStatus w (id task) Testing None) (\<lambda>_.
     bind (do_updateComment w) (\<lambda>_.
     bind (call (createManualTestPrompt_result (attempts w tries))) (\<lambda>testPrompt.
     bind (call (runClaude_test (attempts w tries))) (\<lambda>chunks.
       let testCapture = foldl capture_write capture_clear chunks;
           hasTestSuccess = containsTestSuccess testCapture
       in if hasTestSuccess
          then
            bind (gitCommitAndPush (''Complete task: '' @ title task)
                    (branch (prContext w)) (commit_result (attempts w tries))) (\<lambda>_.
            bind (do_updateTaskStatus w (id task) Completed None) (\<lambda>_.
            bind (do_updateComment w) (\<lambda>_.
            ret True)))
          else
            bind (gitRollback (rollback_result (attempts w tries))) (\<lambda>_.
            ret False)))))))"

text \<open>
  One round of the loop, after \<^verbatim>\<open>tries++\<close>: the attempt is announced, the \<^verbatim>\<open>try\<close> runs,
  and the \<^verbatim>\<open>catch\<close> rolls back. A rollback that throws inside the \<^verbatim>\<open>catch\<close> is not caught.
\<close>

definition attempt_step :: "world \<Rightarrow> Task \<Rightarrow> nat \<Rightarrow> bool step" where
  "attempt_step w task tries =
     bind (emit [Attempt tries]) (\<lambda>_.
     bind (do_updateTaskStatus w (id task) Working (Some tries)) (\<lambda>_.
     bind (do_updateComment w) (\<lambda>_.
     catch (try_body w task tries)
       (\<lambda>err.
          bind (emit [ConsoleError ''Error on attempt'' err]) (\<lambda>_.
          bind (gitRollback (handler_rollback_result (attempts w tries))) (\<lambda>_.
          ret False))))))"

text \<open>\<^verbatim>\<open>while (tries < 3 && !taskCompleted)\<close>; the value is the two variables after the loop.\<close>

function retry_loop :: "world \<Rightarrow> Task \<Rightarrow> nat \<Rightarrow> bool \<Rightarrow> (nat \<times> bool) step" where
  "retry_loop w task tries taskCompleted s =
     (if tries < 3 \<and> \<not> taskCompleted
      then (case attempt_step w task (Suc tries) s of
              (Returned c, s') \<Rightarrow> retry_loop w task (Suc tries) c s'
            | (Thrown e, s') \<Rightarrow> (Thrown e, s')
            | (Exited n, s') \<Rightarrow> (Exited n, s'))
      else (Returned (tries, taskCompleted), s))"
  by pat_completeness auto
termination
  by (relation "measure (\<lambda>(w, task, tries, taskCompleted, s). 3 - tries)") auto

text \<open>
  The loop and what follows it: a task that is not completed is marked as failed, the run
  is marked as failed, the comment is updated and the process exits with code 1.
\<close>

definition retry_and_settle :: "world \<Rightarrow> Task \<Rightarrow> unit step" where
  "retry_and_settle w task =
     bind (retry_loop w task 0 False) (\<lambda>(tries, taskCompleted).
       if \<not> taskCompleted
       then
         bind (do_updateTaskStatus w (id task) Failed None) (\<lambda>_.
         bind (do_setOverallStatus w RunFailed) (\<lambda>_.
         bind (do_updateComment w) (\<lambda>_.
         process_exit 1)))
       else ret ())"

text \<open>
  One task, up to the point where it is marked in the tasks file: the status is set to
  working, what is in the working tree is committed, and the attempts run.
\<close>

definition process_task :: "world \<Rightarrow> Task \<Rightarrow> unit step" where
  "process_task w task =
     bind (do_updateTaskStatus w (id task) Working None) (\<lambda>_.
     bind (do_updateComment w) (\<lambda>_.
     bind (gitCommitAndPush (''Before starting task: '' @ title task) (branch (prContext w))
             (before_commit w)) (\<lambda>_.
     retry_and_settle w task)))"

text \<open>
  The \<^verbatim>\<open>try\<close> around the whole of \<^verbatim>\<open>runUsta\<close>: what is thrown fails the action and the
  process exits with code 1.
\<close>

definition guarded :: "unit step \<Rightarrow> unit step" where
  "guarded m = catch m (\<lambda>err. bind (emit [SetFailed err]) (\<lambda>_. process_exit 1))"

text \<open>What is read off the events and the comment manager.\<close>

definition attempts_made :: "event list \<Rightarrow> nat list" where
  "attempts_made evs = concat (map (\<lambda>ev. case ev of Attempt n \<Rightarrow> [n] | _ \<Rightarrow> []) evs)"

definition rollbacks :: "event list \<Rightarrow> nat" where
  "rollbacks evs = length (filter (\<lambda>ev. ev = GitRollback) evs)"

definition progress_of :: "string \<Rightarrow> orch_state \<Rightarrow> TaskProgress option" where
  "progress_of tid s = find_first (\<lambda>t. taskId t = tid) (progress_tasks (state (manager s)))"

text \<open>The agent never gives the success phrase: whenever a test run returns, its output lacks it.\<close>

definition never_succeeds :: "world \<Rightarrow> bool" where
  "never_succeeds w \<longleftrightarrow>
     (\<forall>n. case runClaude_test (attempts w n) of
            Inl e \<Rightarrow> True
          | Inr chunks \<Rightarrow> \<not> containsTestSuccess (foldl capture_write capture_clear chunks))"

text \<open>A call that returns.\<close>

definition returns :: "error + 'a \<Rightarrow> bool" where
  "returns r = (case r of Inl e \<Rightarrow> False | Inr v \<Rightarrow> True)"



text \<open>The events of an update of the comment.\<close>

definition comment_events :: "world \<Rightarrow> orch_state \<Rightarrow> event list" where
  "comment_events w s =
     snd (updateComment (process_env w) (body_of w) (net w (length (events s))) (manager s))"

section \<open>Scenarios of the orchestrator\<close>

text \<open>The task of the scenario document, and a run that starts with it pending.\<close>

definition scenario_task :: Task where
  "scenario_task = \<lparr> id = ''1'', title = ''1. Do X'', description = [], completed = False,
                      requirements = [''1.1'', ''1.2''], subtasks = [''sub one'', ''sub two''] \<rparr>"

definition start_state :: orch_state where
  "start_state =
     \<lparr> manager =
         \<lparr> pr_context = disabled_context,
           state = \<lparr> specName = ''demo'', progress_tasks = [initial_progress scenario_task],
                     overallStatus = Running, run_startTime = 0, run_endTime = None \<rparr> \<rparr>,
       events = [] \<rparr>"

text \<open>
  Attempts: one whose test run lacks the success phrase, one whose test run has it (in two
  pieces), and one in which every rollback throws.
\<close>

definition failing_attempt :: attempt_io where
  "failing_attempt =
     \<lparr> preparePrompt_result = Inr ''/tmp/prompt-1.txt'',
       runClaude_work = Inr (),
       createManualTestPrompt_result = Inr ''/tmp/prompt-test-1.txt'',
       runClaude_test = Inr [''The task is not complete: '', ''the build fails''],
       commit_result = Inr (),
       rollback_result = Inr (),
       handler_rollback_result = Inr () \<rparr>"


definition broken_git_attempt :: attempt_io where
  "broken_git_attempt =
     failing_attempt\<lparr> rollback_result := Inl (OtherError ''git reset failed with code 128''),
                      handler_rollback_result := Inl (OtherError ''git reset failed with code 128'') \<rparr>"

text \<open>Worlds that differ in their attempts only.\<close>

definition world_of :: "(nat \<Rightarrow> attempt_io) \<Rightarrow> world" where
  "world_of script =
     \<lparr> process_env = env_of [], body_of = (\<lambda>st. specName st), net = (\<lambda>k. CurlClose (Some 0) [] []),
       clock = (\<lambda>k. 1000 * k), prContext = disabled_context, attempts = script,
       before_commit = Inr () \<rparr>"

definition failing_world :: world where
  "failing_world = world_of (\<lambda>n. failing_attempt)"


definition broken_git_world :: world where
  "broken_git_world = world_of (\<lambda>n. broken_git_attempt)"

text \<open>A comment manager of a run in PR mode.\<close>

definition enabled_manager :: CommentManager where
  "enabled_manager =
     \<lparr> pr_context = \<lparr> number = 123, branch = ''feature-branch'', commentId = Some ''456'',
                        isEnabled = True \<rparr>,
       state = \<lparr> specName = ''demo'', progress_tasks = [initial_progress scenario_task],
                 overallStatus = Running, run_startTime = 0, run_endTime = None \<rparr> \<rparr>"

section \<open>Splitting and joining lines\<close>

lemma str_split_not_Nil: "str_split sep s \<noteq> []"
  by (induction s) (auto split: list.splits)

lemma str_join_str_split: "str_join [sep] (str_split sep s) = s"
proof (induction s)
  case Nil
  show ?case by simp
next
  case (Cons c cs)
  obtain w ws where sp: "str_split sep cs = w # ws"
    using str_split_not_Nil [of sep cs] by (cases "str_split sep cs") auto
  show ?case
  proof (cases "c = sep")
    case True
    with Cons sp show ?thesis by simp
  next
    case False
    with Cons sp show ?thesis by (cases ws) auto
  qed
qed

lemma str_split_no_sep: "sep \<notin> set l \<Longrightarrow> str_split sep l = [l]"
  by (induction l) auto

lemma str_split_append_sep:
  "sep \<notin> set l \<Longrightarrow> str_split sep (l @ sep # s) = l # str_split sep s"
  by (induction l) auto

lemma str_split_str_join:
  "ls \<noteq> [] \<Longrightarrow> (\<forall>l\<in>set ls. sep \<notin> set l) \<Longrightarrow> str_split sep (str_join [sep] ls) = ls"
proof (induction ls)
  case Nil
  then show ?case by simp
next
  case (Cons x xs)
  show ?case
  proof (cases xs)
    case Nil
    with Cons.prems show ?thesis by (simp add: str_split_no_sep)
  next
    case (Cons y ys)
    with Cons.IH Cons.prems have "str_split sep (str_join [sep] xs) = xs" by simp
    with Cons Cons.prems show ?thesis by (simp add: str_split_append_sep)
  qed
qed

lemma str_split_lines_no_sep: "l \<in> set (str_split sep s) \<Longrightarrow> sep \<notin> set l"
proof (induction s arbitrary: l)
  case Nil
  then show ?case by simp
next
  case (Cons c cs)
  obtain w ws where sp: "str_split sep cs = w # ws"
    using str_split_not_Nil [of sep cs] by (cases "str_split sep cs") auto
  show ?case
  proof (cases "c = sep")
    case True
    with Cons show ?thesis by auto
  next
    case False
    with Cons sp show ?thesis by auto
  qed
qed

section \<open>Lines before the first heading\<close>

lemma parse_line_no_section:
  assumes "sections st = []" "currentSection st = None" "\<not> is_heading line"
  shows "sections (parse_line st line) = [] \<and> currentSection (parse_line st line) = None"
  using assms
  by (auto simp: parse_line_def is_heading_def push_task_def Let_def split: option.splits prod.splits)

lemma parse_line_first_heading:
  assumes "sections st = []" "currentSection st = None" "is_heading line"
  shows "parse_line st line = parse_line parse_init line"
  using assms
  by (cases st) (auto simp: parse_line_def is_heading_def push_task_def parse_init_def split: option.splits)

lemma foldl_no_section:
  assumes "sections st = []" "currentSection st = None" "\<forall>l\<in>set pre. \<not> is_heading l"
  shows "sections (foldl parse_line st pre) = [] \<and> currentSection (foldl parse_line st pre) = None"
  using assms
proof (induction pre arbitrary: st)
  case Nil
  then show ?case by simp
next
  case (Cons l pre)
  from Cons.prems have "sections (parse_line st l) = [] \<and> currentSection (parse_line st l) = None"
    by (intro parse_line_no_section) auto
  with Cons show ?case by simp
qed

lemma parse_finish_no_section:
  "sections st = [] \<Longrightarrow> currentSection st = None \<Longrightarrow> parse_finish st = []"
  by (auto simp: parse_finish_def split: option.splits)

lemma parse_lines_drop_prefix:
  assumes "\<forall>l\<in>set pre. \<not> is_heading l"
  shows "parse_lines (pre @ rest) = parse_lines rest"
proof -
  let ?st = "foldl parse_line parse_init pre"
  have ns: "sections ?st = [] \<and> currentSection ?st = None"
    using assms by (intro foldl_no_section) (simp_all add: parse_init_def)
  have "parse_finish (foldl parse_line ?st rest) = parse_finish (foldl parse_line parse_init rest)"
    using ns
  proof (induction rest arbitrary: pre)
    case Nil
    then show ?case by (simp add: parse_finish_no_section parse_init_def)
  next
    case (Cons l rest)
    show ?case
    proof (cases "is_heading l")
      case True
      with Cons.prems show ?thesis by (simp add: parse_line_first_heading)
    next
      case False
      let ?p = "pre @ [l]"
      have a: "sections (foldl parse_line parse_init ?p) = [] \<and>
            currentSection (foldl parse_line parse_init ?p) = None"
        using Cons.prems False by (simp add: parse_line_no_section)
      have b: "sections (foldl parse_line parse_init [l]) = [] \<and>
            currentSection (foldl parse_line parse_init [l]) = None"
        using False by (simp add: parse_line_no_section parse_init_def)
      have "parse_finish (foldl parse_line (foldl parse_line parse_init ?p) rest) =
            parse_finish (foldl parse_line parse_init rest)"
        using Cons.IH [OF a] .
      moreover have "parse_finish (foldl parse_line (foldl parse_line parse_init [l]) rest) =
            parse_finish (foldl parse_line parse_init rest)"
        using Cons.IH [OF b] .
      ultimately show ?thesis by simp
    qed
  qed
  then show ?thesis by (simp add: parse_lines_def)
qed


text \<open>
  C10. Whatever stands above the first section heading is dropped by the parser: when the
  lines of a document are \<open>pre @ rest\<close> and no line of \<open>pre\<close> is a section heading, the
  parse result is the one of \<open>rest\<close> alone. So a task line of \<open>pre\<close> gives no task in the
  parse result, and none in what \<^verbatim>\<open>getAllTasks\<close>, \<^verbatim>\<open>getNextTask\<close> and
  \<^verbatim>\<open>getTaskById\<close> return.
\<close>

theorem tasks_before_first_heading_dropped:
  assumes "str_split CHR 0x0A content = pre @ rest"
    and "\<forall>l\<in>set pre. \<not> is_heading l"
  shows "parseTasks content = parse_lines rest \<and>
         getAllTasks content = concat (map tasks (parse_lines rest)) \<and>
         getNextTask content = find_first (\<lambda>t. \<not> completed t) (concat (map tasks (parse_lines rest))) \<and>
         getTaskById content tid =
           find_first (\<lambda>t. id t = tid) (concat (map tasks (parse_lines rest)))"
  using assms parse_lines_drop_prefix [of pre rest]
  by (simp add: parseTasks_def getAllTasks_def getNextTask_def getTaskById_def)

theorem tasks_before_first_heading_dropped_witness:
  "task_match ''- [ ] 1. Early'' = Some (CHR '' '', Some ''1. '', ''Early'') \<and>
   \<not> is_heading ''- [ ] 1. Early'' \<and>
   getAllTasks early_task_document =
     [\<lparr> id = ''2'', title = ''2. Inside'', description = [], completed = False,
        requirements = [], subtasks = [] \<rparr>] \<and>
   getTaskById early_task_document ''1'' = None"
proof -
  have s: "str_split CHR 0x0A early_task_document = [''- [ ] 1. Early''] @ [''## A'', ''- [ ] 2. Inside'']"
    by code_simp
  have h: "\<forall>l\<in>set [''- [ ] 1. Early'']. \<not> is_heading l"
    by code_simp
  have m: "task_match ''- [ ] 1. Early'' = Some (CHR '' '', Some ''1. '', ''Early'')"
    by code_simp
  have r: "concat (map tasks (parse_lines [''## A'', ''- [ ] 2. Inside''])) =
     [\<lparr> id = ''2'', title = ''2. Inside'', description = [], completed = False,
        requirements = [], subtasks = [] \<rparr>]"
    by code_simp
  from tasks_before_first_heading_dropped [OF s h, of "''1''"] r m h show ?thesis
    by simp
qed

section \<open>Counting completed tasks\<close>

lemma completed_count_append [simp]:
  "completed_count (xs @ ys) = completed_count xs + completed_count ys"
  by (simp add: completed_count_def)

lemma completed_count_push:
  "i < length secs \<Longrightarrow>
   completed_count (secs[i := (secs ! i)\<lparr> tasks := tasks (secs ! i) @ [t] \<rparr>]) =
   completed_count secs + (if completed t then 1 else 0)"
proof (induction secs arbitrary: i)
  case Nil
  then show ?case by simp
next
  case (Cons s secs)
  show ?case
  proof (cases i)
    case 0
    then show ?thesis by (simp add: completed_count_def)
  next
    case (Suc j)
    with Cons.prems have "j < length secs" by simp
    from Cons.IH [OF this] Suc show ?thesis by (simp add: completed_count_def)
  qed
qed

lemma push_task_count:
  "section_ok st \<Longrightarrow>
   completed_count (sections (push_task t st)) =
   completed_count (sections st) + (if currentSection st \<noteq> None \<and> completed t then 1 else 0)"
  by (auto simp: push_task_def section_ok_def completed_count_push split: option.splits)

lemma push_task_fields [simp]:
  "currentSection (push_task t st) = currentSection st"
  "currentTask (push_task t st) = currentTask st"
  "length (sections (push_task t st)) = length (sections st)"
  by (auto simp: push_task_def split: option.splits)

lemma push_task_section_ok [simp]: "section_ok (push_task t st) = section_ok st"
  by (auto simp: section_ok_def split: option.splits)

lemma completed_continuation [simp]: "completed (continuation line t) = completed t"
  by (simp add: continuation_def Let_def)

lemma id_continuation [simp]: "id (continuation line t) = id t"
  by (simp add: continuation_def Let_def)

lemma completed_new_task: "completed (new_task (box, np, tt)) = (box = CHR ''x'')"
  by (simp add: new_task_def Let_def split: option.splits prod.splits)

lemma heading_not_task: "is_heading l \<Longrightarrow> task_match l = None"
  by (cases l) (auto simp: is_heading_def task_match_def starts_with_def)

lemma completed_count_empty_section [simp]:
  "completed_count [\<lparr> stitle = a, tasks = [] \<rparr>] = 0"
  by (simp add: completed_count_def)

lemma parse_line_heading:
  assumes "is_heading l" "section_ok st"
  shows "section_ok (parse_line st l)"
    and "pending_count (parse_line st l) = pending_count st"
    and "currentSection (parse_line st l) \<noteq> None"
  using assms
  by (auto simp: parse_line_def is_heading_def section_ok_def pending_count_def push_task_count
      Let_def split: option.splits)

lemma task_match_title: "task_match l = Some (box, np, tt) \<Longrightarrow> tt \<noteq> []"
  by (auto simp: task_match_def Let_def split: if_splits option.splits)

lemma parse_line_task:
  assumes "\<not> is_heading l" "section_ok st"
  shows "section_ok (parse_line st l)"
    and "pending_count (parse_line st l) =
         pending_count st + (if currentSection st \<noteq> None \<and> is_completed_task_line l then 1 else 0)"
    and "currentSection (parse_line st l) = currentSection st"
  using assms
  by (auto simp: parse_line_def is_heading_def section_ok_def pending_count_def push_task_count
      is_completed_task_line_def completed_new_task Let_def dest: task_match_title
      split: option.splits prod.splits)

lemma foldl_parse_line_count:
  assumes "section_ok st"
  shows "section_ok (foldl parse_line st ls) \<and>
         pending_count (foldl parse_line st ls) =
         pending_count st + completed_lines (currentSection st \<noteq> None) ls"
  using assms
proof (induction ls arbitrary: st)
  case Nil
  then show ?case by simp
next
  case (Cons l ls)
  show ?case
  proof (cases "is_heading l")
    case True
    from parse_line_heading [OF True Cons.prems] Cons.IH [of "parse_line st l"] True
    show ?thesis by simp
  next
    case False
    from parse_line_task [OF False Cons.prems] Cons.IH [of "parse_line st l"] False
    show ?thesis by simp
  qed
qed

lemma parse_finish_count:
  "section_ok st \<Longrightarrow> completed_count (parse_finish st) = pending_count st"
  by (auto simp: parse_finish_def pending_count_def push_task_count split: option.splits)

lemma completed_count_parse_lines:
  "completed_count (parse_lines ls) = completed_lines False ls"
  using foldl_parse_line_count [of parse_init ls] parse_finish_count [of "foldl parse_line parse_init ls"]
  by (simp add: parse_lines_def section_ok_def parse_init_def pending_count_def completed_count_def)


section \<open>Parsing the scenario document\<close>

text \<open>
  C4. The scenario document parses to one section titled A that holds one task: id 1,
  title "1. Do X", not completed, the two subtasks and the two requirements (and an empty
  description).
\<close>

theorem parse_scenario_document:
  "parseTasks scenario_document =
     [\<lparr> stitle = ''A'',
        tasks = [\<lparr> id = ''1'', title = ''1. Do X'', description = [], completed = False,
                   requirements = [''1.1'', ''1.2''],
                   subtasks = [''sub one'', ''sub two''] \<rparr>] \<rparr>]"
  by code_simp

section \<open>The line that is flipped\<close>

lemma starts_with_append: "starts_with p s \<longleftrightarrow> (\<exists>b. s = p @ b)"
proof
  assume "starts_with p s"
  then have "s = p @ drop (length p) s"
    by (metis append_take_drop_id starts_with_def)
  then show "\<exists>b. s = p @ b" ..
next
  assume "\<exists>b. s = p @ b"
  then show "starts_with p s" by (auto simp: starts_with_def)
qed

lemma starts_with_prefix [simp]: "starts_with p (p @ b)"
  by (simp add: starts_with_def)

lemma bracket_not_space: "\<not> is_space CHR '']''"
  by (simp add: is_space_def)

lemma x_not_space: "\<not> is_space CHR ''x''"
  by (simp add: is_space_def)

lemma takeWhile_cell:
  "list_all is_space cell \<Longrightarrow> takeWhile (\<lambda>c. c \<noteq> CHR '']'') (cell @ CHR '']'' # r) = cell"
  by (induction cell) (auto simp: is_space_def)

lemma takeWhile_space_cell:
  "list_all is_space cell \<Longrightarrow> takeWhile is_space (cell @ CHR '']'' # r) = cell"
  by (induction cell) (auto simp: bracket_not_space)

lemma unchecked_match_shape:
  assumes "unchecked_match l = Some r"
  shows "\<exists>cell. l = ''- ['' @ cell @ ''] '' @ r \<and> list_all is_space cell \<and> r \<noteq> [] \<and>
           \<not> list_ex is_line_terminator r"
proof -
  let ?rest = "drop 3 l"
  let ?cell = "takeWhile (\<lambda>c. c \<noteq> CHR '']'') ?rest"
  let ?after = "drop (length ?cell) ?rest"
  from assms have sw: "starts_with ''- ['' l"
    by (auto simp: unchecked_match_def split: if_splits)
  with assms have c: "list_all is_space ?cell" and a: "starts_with ''] '' ?after"
    and r: "r = drop 2 ?after" "r \<noteq> []" "\<not> list_ex is_line_terminator r"
    by (auto simp: unchecked_match_def Let_def split: if_splits)
  from sw have l: "l = ''- ['' @ ?rest"
    by (metis append_take_drop_id length_Cons list.size(3) numeral_3_eq_3 starts_with_def)
  have rest: "?rest = ?cell @ ?after"
    by (metis dropWhile_eq_drop takeWhile_dropWhile_id)
  from a r have after: "?after = ''] '' @ r"
    by (metis One_nat_def Suc_1 append_take_drop_id length_Cons list.size(3) starts_with_def)
  from l rest after have "l = ''- ['' @ ?cell @ ''] '' @ r"
    by metis
  with c r show ?thesis by blast
qed

lemma unchecked_match_intro:
  assumes "list_all is_space cell" "r \<noteq> []" "\<not> list_ex is_line_terminator r"
  shows "unchecked_match (''- ['' @ cell @ ''] '' @ r) = Some r"
  using assms takeWhile_cell [of cell "'' '' @ r"]
  by (simp add: unchecked_match_def starts_with_def)

lemma drop_3_plus: "drop (3 + n) (a # b # c # xs) = drop n xs"
  by (simp add: numeral_3_eq_3)

lemma drop_4_plus: "drop (4 + n) (a # b # c # xs) = drop (Suc n) xs"
  by (simp add: numeral_eq_Suc)

lemma drop_Suc_length_append: "drop (Suc (length xs)) (xs @ y # ys) = ys"
  by (induction xs) auto

lemma replace_checkbox_unchecked:
  assumes "list_all is_space cell"
  shows "replace_checkbox (''- ['' @ cell @ ''] '' @ r) = ''- [x] '' @ r"
proof -
  have "replace_checkbox (CHR ''-'' # CHR '' '' # CHR ''['' # cell @ CHR '']'' # CHR '' '' # r) =
        CHR ''-'' # CHR '' '' # CHR ''['' # CHR ''x'' # CHR '']'' # CHR '' '' # r"
    using assms
    by (simp add: Let_def starts_with_def drop_3_plus drop_4_plus takeWhile_space_cell
        drop_Suc_length_append)
  then show ?thesis by simp
qed

lemma line_matches_shape:
  assumes "line_matches tid l"
  shows "\<exists>cell r. l = ''- ['' @ cell @ ''] '' @ r \<and> list_all is_space cell \<and> r \<noteq> [] \<and>
           \<not> list_ex is_line_terminator r"
  using assms unchecked_match_shape [of l]
  by (auto simp: line_matches_def split: if_splits option.splits)

lemma mark_lines_none:
  "(\<forall>l\<in>set ls. \<not> line_matches tid l) \<Longrightarrow> mark_lines tid ls = (ls, False)"
  by (induction ls) auto

lemma mark_lines_some:
  "\<exists>l\<in>set ls. line_matches tid l \<Longrightarrow>
   \<exists>i<length ls. line_matches tid (ls ! i) \<and>
      mark_lines tid ls = (ls[i := replace_checkbox (ls ! i)], True)"
proof (induction ls)
  case Nil
  then show ?case by simp
next
  case (Cons l ls)
  show ?case
  proof (cases "line_matches tid l")
    case True
    then have "line_matches tid ((l # ls) ! 0) \<and>
      mark_lines tid (l # ls) = ((l # ls)[0 := replace_checkbox ((l # ls) ! 0)], True)"
      by simp
    then show ?thesis by blast
  next
    case False
    with Cons.prems have "\<exists>l\<in>set ls. line_matches tid l" by simp
    from Cons.IH [OF this] obtain i where i: "i < length ls" "line_matches tid (ls ! i)"
      "mark_lines tid ls = (ls[i := replace_checkbox (ls ! i)], True)" by blast
    with False have "Suc i < length (l # ls) \<and> line_matches tid ((l # ls) ! Suc i) \<and>
      mark_lines tid (l # ls) = ((l # ls)[Suc i := replace_checkbox ((l # ls) ! Suc i)], True)"
      by simp
    then show ?thesis by blast
  qed
qed

text \<open>
  What the test of the loop says of a line: the line is an unchecked checkbox line, and the
  id it derives from its title is the given id or its title contains the given id.
\<close>

lemma str_includes_iff: "str_includes s t \<longleftrightarrow> (\<exists>a b. s = a @ t @ b)"
proof (induction s)
  case Nil
  then show ?case by auto
next
  case (Cons c cs)
  show ?case
  proof
    assume "str_includes (c # cs) t"
    then consider "starts_with t (c # cs)" | "str_includes cs t" by auto
    then show "\<exists>a b. c # cs = a @ t @ b"
    proof cases
      case 1
      then obtain b where "c # cs = t @ b" by (auto simp: starts_with_append)
      then have "c # cs = [] @ t @ b" by simp
      then show ?thesis by blast
    next
      case 2
      with Cons.IH obtain a b where "cs = a @ t @ b" by blast
      then have "c # cs = (c # a) @ t @ b" by simp
      then show ?thesis by blast
    qed
  next
    assume "\<exists>a b. c # cs = a @ t @ b"
    then obtain a b where ab: "c # cs = a @ t @ b" by blast
    show "str_includes (c # cs) t"
    proof (cases a)
      case Nil
      with ab have "starts_with t (c # cs)" by (auto simp: starts_with_append)
      then show ?thesis by simp
    next
      case (Cons x xs)
      with ab have "cs = xs @ t @ b" by simp
      with Cons.IH have "str_includes cs t" by blast
      then show ?thesis by simp
    qed
  qed
qed

lemma line_matches_iff:
  "line_matches tid l \<longleftrightarrow>
     (\<exists>cell r. l = ''- ['' @ cell @ ''] '' @ r \<and> list_all is_space cell \<and> r \<noteq> [] \<and>
        \<not> list_ex is_line_terminator r \<and>
        (taskIdFromTitle r = tid \<or> (\<exists>a b. r = a @ tid @ b)))"
proof
  assume lm: "line_matches tid l"
  then obtain r where r: "unchecked_match l = Some r"
    and m: "taskIdFromTitle r = tid \<or> str_includes r tid"
    by (auto simp: line_matches_def split: if_splits option.splits)
  from unchecked_match_shape [OF r] m show
    "\<exists>cell r. l = ''- ['' @ cell @ ''] '' @ r \<and> list_all is_space cell \<and> r \<noteq> [] \<and>
        \<not> list_ex is_line_terminator r \<and>
        (taskIdFromTitle r = tid \<or> (\<exists>a b. r = a @ tid @ b))"
    by (auto simp: str_includes_iff)
next
  assume "\<exists>cell r. l = ''- ['' @ cell @ ''] '' @ r \<and> list_all is_space cell \<and> r \<noteq> [] \<and>
        \<not> list_ex is_line_terminator r \<and>
        (taskIdFromTitle r = tid \<or> (\<exists>a b. r = a @ tid @ b))"
  then obtain cell r where l: "l = ''- ['' @ cell @ ''] '' @ r" and c: "list_all is_space cell"
    and r: "r \<noteq> []" "\<not> list_ex is_line_terminator r"
    and m: "taskIdFromTitle r = tid \<or> (\<exists>a b. r = a @ tid @ b)" by blast
  from unchecked_match_intro [OF c r] l have "unchecked_match l = Some r" by simp
  moreover from l have "l \<noteq> []" by simp
  ultimately show "line_matches tid l"
    using r m by (auto simp: line_matches_def str_includes_iff)
qed

text \<open>
  C5, as amended. When no line of the document is an unchecked checkbox line whose derived
  id is the given id or whose title contains the given id, \<^verbatim>\<open>markTaskAsCompleted\<close> throws
  and the tasks file is as it was: its text is the same and nothing has been written.
\<close>

theorem markTaskAsCompleted_no_match:
  assumes "\<forall>l\<in>set (str_split CHR 0x0A (file_content f)). \<not> line_matches tid l"
  shows "markTaskAsCompleted tid f = (Inl (TaskNotFoundOrCompleted tid), f)"
  using mark_lines_none [OF assms] by (simp add: markTaskAsCompleted_def)

theorem markTaskAsCompleted_no_match_witness:
  "\<not> line_matches ''1'' ''## A'' \<and> \<not> line_matches ''1'' ''- [x] 1. Done'' \<and>
   \<not> line_matches ''1'' ''- [ ] 2. Open'' \<and>
   markTaskAsCompleted ''1'' \<lparr> file_content = completed_task_document, write_count = 0 \<rparr> =
     (Inl (TaskNotFoundOrCompleted ''1''), \<lparr> file_content = completed_task_document, write_count = 0 \<rparr>) \<and>
   markTaskAsCompleted ''9'' \<lparr> file_content = completed_task_document, write_count = 0 \<rparr> =
     (Inl (TaskNotFoundOrCompleted ''9''), \<lparr> file_content = completed_task_document, write_count = 0 \<rparr>)"
proof -
  let ?f = "\<lparr> file_content = completed_task_document, write_count = 0 \<rparr>"
  have s: "str_split CHR 0x0A (file_content ?f) = [''## A'', ''- [x] 1. Done'', ''- [ ] 2. Open'']"
    by code_simp
  have a: "\<not> line_matches ''1'' ''## A''" "\<not> line_matches ''1'' ''- [x] 1. Done''"
    "\<not> line_matches ''1'' ''- [ ] 2. Open''"
    by code_simp+
  have b: "\<not> line_matches ''9'' ''## A''" "\<not> line_matches ''9'' ''- [x] 1. Done''"
    "\<not> line_matches ''9'' ''- [ ] 2. Open''"
    by code_simp+
  have h1: "\<forall>l\<in>set (str_split CHR 0x0A (file_content ?f)). \<not> line_matches ''1'' l"
    unfolding s using a by simp
  have h9: "\<forall>l\<in>set (str_split CHR 0x0A (file_content ?f)). \<not> line_matches ''9'' l"
    unfolding s using b by simp
  from markTaskAsCompleted_no_match [OF h1] markTaskAsCompleted_no_match [OF h9] a
  show ?thesis by simp
qed

text \<open>
  When some line passes the test of the loop, whatever task the id belongs to,
  \<^verbatim>\<open>markTaskAsCompleted\<close> returns and writes the file once.
\<close>

lemma markTaskAsCompleted_match:
  assumes "\<exists>l\<in>set (str_split CHR 0x0A (file_content f)). line_matches tid l"
  shows "fst (markTaskAsCompleted tid f) = Inr () \<and>
         write_count (snd (markTaskAsCompleted tid f)) = Suc (write_count f)"
proof -
  from mark_lines_some [OF assms] obtain i where
    "mark_lines tid (str_split CHR 0x0A (file_content f)) =
       ((str_split CHR 0x0A (file_content f))[i := replace_checkbox (str_split CHR 0x0A (file_content f) ! i)], True)"
    by blast
  then show ?thesis
    by (simp add: markTaskAsCompleted_def writeFile_def)
qed

text \<open>
  C5 as stated fails: an id of a task that is already completed, or of no task, is still
  matched by an unchecked line whose title contains it. The task with id 1 is completed,
  yet \<^verbatim>\<open>markTaskAsCompleted\<close> with id 1 flips the line of task 2, whose title ends in 1, and
  writes the file. No task has the id 9, yet \<^verbatim>\<open>markTaskAsCompleted\<close> with id 9 flips the
  line of the task whose title contains 9, and writes the file.
\<close>

theorem markTaskAsCompleted_no_match_counterexample:
  "map (\<lambda>t. (id t, completed t)) (getAllTasks title_contains_id_document) =
     [(''1'', True), (''2'', False)] \<and>
   markTaskAsCompleted ''1'' \<lparr> file_content = title_contains_id_document, write_count = 0 \<rparr> =
     (Inr (),
      \<lparr> file_content = ''## A'' @ [CHR 0x0A] @ ''- [x] 1. Done'' @ [CHR 0x0A] @ ''- [x] 2. Open 1'',
        write_count = 1 \<rparr>) \<and>
   getTaskById title_contains_number_document ''9'' = None \<and>
   markTaskAsCompleted ''9'' \<lparr> file_content = title_contains_number_document, write_count = 0 \<rparr> =
     (Inr (),
      \<lparr> file_content = ''## A'' @ [CHR 0x0A] @ ''- [x] 2. Fix 9 bugs'', write_count = 1 \<rparr>)"
  by code_simp

section \<open>Marking a task and parsing again\<close>

lemma bullet_not_heading: "starts_with ''- ['' l \<Longrightarrow> \<not> is_heading l"
  by (cases l) (auto simp: is_heading_def starts_with_def)

lemma heading_before:
  assumes "tasks_in_sections ls" "i < length ls" "starts_with ''- ['' (ls ! i)"
  shows "\<exists>j<i. is_heading (ls ! j)"
  using assms
proof (induction ls arbitrary: i)
  case Nil
  then show ?case by simp
next
  case (Cons l ls)
  show ?case
  proof (cases i)
    case 0
    with Cons.prems bullet_not_heading [of l] show ?thesis
      by (auto simp: tasks_in_sections_def)
  next
    case (Suc k)
    show ?thesis
    proof (cases "is_heading l")
      case True
      with Suc show ?thesis by auto
    next
      case False
      with Cons.prems Suc have "tasks_in_sections ls" "k < length ls" "starts_with ''- ['' (ls ! k)"
        by (auto simp: tasks_in_sections_def)
      from Cons.IH [OF this] obtain j where "j < k" "is_heading (ls ! j)" by blast
      with Suc have "Suc j < i \<and> is_heading ((l # ls) ! Suc j)" by simp
      then show ?thesis by blast
    qed
  qed
qed

lemma completed_lines_update:
  assumes "i < length ls" "\<not> is_heading (ls ! i)" "\<not> is_heading new"
    "\<not> is_completed_task_line (ls ! i)" "is_completed_task_line new"
  shows "completed_lines b (ls[i := new]) =
         completed_lines b ls + (if b \<or> (\<exists>j<i. is_heading (ls ! j)) then 1 else 0)"
  using assms
proof (induction ls arbitrary: i b)
  case Nil
  then show ?case by simp
next
  case (Cons l ls)
  show ?case
  proof (cases i)
    case 0
    with Cons.prems show ?thesis by simp
  next
    case (Suc k)
    with Cons.prems have k: "k < length ls" "\<not> is_heading (ls ! k)"
      "\<not> is_completed_task_line (ls ! k)" by simp_all
    have ex: "(\<exists>j<Suc k. is_heading ((l # ls) ! j)) \<longleftrightarrow> is_heading l \<or> (\<exists>j<k. is_heading (ls ! j))"
      by (auto simp: less_Suc_eq_0_disj)
    from Cons.IH [OF k(1) k(2) Cons.prems(3) k(3) Cons.prems(5)] Suc ex
    show ?thesis by auto
  qed
qed


lemma flipped_is_completed:
  assumes "r \<noteq> []" "\<not> list_ex is_line_terminator r"
  shows "is_completed_task_line (''- [x] '' @ r)"
  using assms
  by (auto simp: is_completed_task_line_def task_match_def starts_with_def checkbox_cell_def
      x_not_space Let_def)

lemma task_match_unchecked_box:
  assumes "list_all is_space cell" "task_match (''- ['' @ cell @ ''] '' @ r) = Some (box, np, tt)"
  shows "box = CHR '' ''"
proof -
  have f: "filter (\<lambda>c. \<not> is_space c) cell = []"
    using assms(1) by (induction cell) auto
  from assms(2) takeWhile_cell [OF assms(1), of "'' '' @ r"] f show ?thesis
    by (auto simp: task_match_def starts_with_def checkbox_cell_def Let_def
        split: if_splits option.splits)
qed

lemma unchecked_not_completed:
  assumes "list_all is_space cell"
  shows "\<not> is_completed_task_line (''- ['' @ cell @ ''] '' @ r)"
  using task_match_unchecked_box [OF assms, of r]
  by (auto simp: is_completed_task_line_def split: option.splits)


lemma set_tasks_update:
  "set (concat (map tasks (secs[i := (secs ! i)\<lparr> tasks := tasks (secs ! i) @ [t] \<rparr>]))) \<subseteq>
   insert t (set (concat (map tasks secs)))"
proof (induction secs arbitrary: i)
  case Nil
  then show ?case by simp
next
  case (Cons s secs)
  show ?case
  proof (cases i)
    case 0
    then show ?thesis by auto
  next
    case (Suc k)
    with Cons.IH [of k] show ?thesis by auto
  qed
qed

lemma set_tasks_push:
  "set (concat (map tasks (sections (push_task t st)))) \<subseteq>
   insert t (set (concat (map tasks (sections st))))"
  using set_tasks_update [of "sections st" _ t]
  by (auto simp: push_task_def split: option.splits)

lemma tasks_from_mono: "tasks_from S st \<Longrightarrow> S \<subseteq> S' \<Longrightarrow> tasks_from S' st"
  unfolding tasks_from_def by blast

lemma tasks_from_push:
  assumes "tasks_from S st" "\<exists>l\<in>S. from_line t l"
  shows "tasks_from S (push_task t st)"
  using assms set_tasks_push [of t st] unfolding tasks_from_def
  by (simp add: subset_iff) blast

lemma from_line_continuation [simp]: "from_line (continuation line t) l = from_line t l"
  by (simp add: from_line_def)

lemma tasks_from_parse_line:
  assumes "tasks_from S st"
  shows "tasks_from (insert l S) (parse_line st l)"
proof -
  have m: "tasks_from (insert l S) st"
    using assms by (rule tasks_from_mono) auto
  show ?thesis
  proof (cases "starts_with ''## '' l")
    case True
    show ?thesis
    proof (cases "currentTask st")
      case None
      with True m show ?thesis
        by (auto simp: parse_line_def tasks_from_def Let_def)
    next
      case (Some t)
      with m have "\<exists>l'\<in>insert l S. from_line t l'" by (simp add: tasks_from_def)
      from tasks_from_push [OF m this] True Some show ?thesis
        by (auto simp: parse_line_def tasks_from_def Let_def)
    qed
  next
    case False
    show ?thesis
    proof (cases "task_match l")
      case None
      with False m show ?thesis
        by (auto simp: parse_line_def tasks_from_def split: option.splits)
    next
      case (Some mt)
      obtain box np tt where mt: "mt = (box, np, tt)" by (cases mt)
      have new: "from_line (new_task mt) l"
        using Some by (simp add: from_line_def)
      have st1: "tasks_from (insert l S) (case currentTask st of Some t \<Rightarrow> push_task t st | None \<Rightarrow> st)"
      proof (cases "currentTask st")
        case None
        with m show ?thesis by simp
      next
        case (Some t)
        with m have "\<exists>l'\<in>insert l S. from_line t l'" by (simp add: tasks_from_def)
        from tasks_from_push [OF m this] Some show ?thesis by simp
      qed
      from st1 new False Some mt show ?thesis
        by (auto simp: parse_line_def tasks_from_def Let_def split: option.splits)
    qed
  qed
qed

lemma tasks_from_foldl:
  "tasks_from S st \<Longrightarrow> tasks_from (S \<union> set ls) (foldl parse_line st ls)"
proof (induction ls arbitrary: S st)
  case Nil
  then show ?case by simp
next
  case (Cons l ls)
  from Cons.IH [OF tasks_from_parse_line [OF Cons.prems, of l]] show ?case by simp
qed

lemma tasks_from_finish:
  assumes "tasks_from S st" "t \<in> set (concat (map tasks (parse_finish st)))"
  shows "\<exists>l\<in>S. from_line t l"
proof (cases "currentTask st")
  case None
  with assms show ?thesis by (auto simp: parse_finish_def tasks_from_def)
next
  case (Some u)
  with assms(1) have u: "\<exists>l\<in>S. from_line u l" by (simp add: tasks_from_def)
  from tasks_from_push [OF assms(1) u] assms Some show ?thesis
    by (auto simp: parse_finish_def tasks_from_def split: if_splits)
qed

lemma parse_lines_from_line:
  assumes "t \<in> set (concat (map tasks (parse_lines ls)))"
  shows "\<exists>l\<in>set ls. from_line t l"
proof -
  have "tasks_from {} parse_init" by (simp add: tasks_from_def parse_init_def)
  from tasks_from_foldl [OF this, of ls] have "tasks_from (set ls) (foldl parse_line parse_init ls)"
    by simp
  from tasks_from_finish [OF this] assms show ?thesis by (simp add: parse_lines_def)
qed


lemma str_includes_prefix: "str_includes (p @ b) p"
proof (cases "p @ b")
  case Nil
  then show ?thesis by simp
next
  case (Cons a list)
  have "starts_with p (p @ b)" by simp
  with Cons show ?thesis by simp
qed

lemma str_includes_takeWhile: "str_includes s (takeWhile P s)"
  using str_includes_prefix [of "takeWhile P s" "dropWhile P s"] by simp

lemma str_includes_self: "str_includes s s"
  using str_includes_prefix [of s "[]"] by simp

lemma hd_str_split: "hd (str_split sep s) = takeWhile (\<lambda>c. c \<noteq> sep) s"
  using str_split_not_Nil [of sep]
  by (induction s) (auto split: list.splits)

lemma digit_not_space: "is_digit c \<Longrightarrow> \<not> is_space c"
  by (auto simp: is_digit_def is_space_def)

lemma digit_not_stop: "is_digit c \<Longrightarrow> c \<noteq> CHR ''.''"
  by (auto simp: is_digit_def)

lemma remove_first_digits:
  "list_all is_digit ds \<Longrightarrow> remove_first CHR ''.'' (ds @ CHR ''.'' # rest) = ds @ rest"
  by (induction ds) (auto dest: digit_not_stop)

lemma trim_digits_space:
  assumes "ds \<noteq> []" "list_all is_digit ds"
  shows "trim (ds @ '' '') = ds"
proof -
  from assms have h: "\<not> is_space (hd ds)"
    by (cases ds) (auto dest: digit_not_space)
  from assms have l: "\<not> is_space (last ds)"
    by (metis digit_not_space last_in_set list_all_iff)
  from h assms(1) have 1: "dropWhile is_space (ds @ '' '') = ds @ '' ''"
    by (cases ds) auto
  from l assms(1) have 2: "dropWhile is_space (rev ds) = rev ds"
    by (simp add: dropWhile_eq_self_iff hd_rev)
  show ?thesis
    by (simp add: trim_def 1 2 is_space_def)
qed

lemma number_prefix_id:
  assumes "ds \<noteq> []" "list_all is_digit ds"
  shows "trim (remove_first CHR ''.'' (ds @ ''. '')) = ds"
  using remove_first_digits [OF assms(2), of "'' ''"] trim_digits_space [OF assms]
  by simp

lemma list_all_takeWhile: "list_all P (takeWhile P xs)"
  by (induction xs) auto

lemma id_new_task_included:
  assumes "task_match l = Some (box, np, tt)" "unchecked_match l = Some r"
  shows "str_includes r (id (new_task (box, np, tt)))"
proof -
  let ?rest = "drop 3 l"
  let ?cell = "takeWhile (\<lambda>c. c \<noteq> CHR '']'') ?rest"
  let ?after = "drop (length ?cell) ?rest"
  let ?ds = "takeWhile is_digit r"
  from assms(2) have r: "r = drop 2 ?after"
    by (auto simp: unchecked_match_def Let_def split: if_splits)
  from assms(1) r consider
      (num) "np = Some (?ds @ ''. '')" "?ds \<noteq> []"
    | (plain) "np = None" "tt = r"
    by (auto simp: task_match_def Let_def split: if_splits option.splits)
  then show ?thesis
  proof cases
    case num
    have "id (new_task (box, np, tt)) = ?ds"
      using num number_prefix_id [OF num(2) list_all_takeWhile]
      by (simp add: new_task_def)
    then show ?thesis by (simp add: str_includes_takeWhile)
  next
    case plain
    then show ?thesis
      by (simp add: new_task_def Let_def hd_str_split str_includes_takeWhile str_includes_self)
  qed
qed

lemma unchecked_of_task_match:
  assumes "task_match l = Some (box, np, tt)" "box \<noteq> CHR ''x''"
  shows "\<exists>r. unchecked_match l = Some r"
proof -
  let ?rest = "drop 3 l"
  let ?cell = "takeWhile (\<lambda>c. c \<noteq> CHR '']'') ?rest"
  from assms have "checkbox_cell ?cell = Some box"
    by (auto simp: task_match_def Let_def split: if_splits option.splits)
  with assms(2) have "filter (\<lambda>c. \<not> is_space c) ?cell = []"
    by (auto simp: checkbox_cell_def split: if_splits)
  then have "list_all is_space ?cell"
    by (simp add: list_all_iff filter_empty_conv)
  with assms(1) show ?thesis
    by (auto simp: task_match_def unchecked_match_def Let_def split: if_splits option.splits)
qed

lemma from_line_matches:
  assumes "from_line t l" "\<not> completed t"
  shows "line_matches (id t) l"
proof -
  from assms(1) obtain box np tt where m: "task_match l = Some (box, np, tt)"
    and i: "id t = id (new_task (box, np, tt))" and c: "completed t = completed (new_task (box, np, tt))"
    by (auto simp: from_line_def)
  from c assms(2) have "box \<noteq> CHR ''x''" by (simp add: completed_new_task)
  from unchecked_of_task_match [OF m this] obtain r where r: "unchecked_match l = Some r" ..
  from unchecked_match_shape [OF r] have "r \<noteq> []" "l \<noteq> []" by auto
  with r id_new_task_included [OF m r] i show ?thesis
    by (simp add: line_matches_def)
qed


lemma newline_terminator: "\<not> list_ex is_line_terminator r \<Longrightarrow> CHR 0x0A \<notin> set r"
  by (auto simp: list_ex_iff is_line_terminator_def)

text \<open>
  C3, as amended. For a document in which every checkbox bullet stands below a section
  heading, and a task \<open>t\<close> of its parse result that is not completed:
  \<^verbatim>\<open>markTaskAsCompleted\<close> with the id of \<open>t\<close> succeeds and writes the file once; the lines
  of the new text are the old lines but for one line \<open>i\<close>, an unchecked checkbox line, whose
  bracket cell is replaced by \<^verbatim>\<open>x\<close>; and parsing the new text gives exactly one more
  completed task.
\<close>

theorem mark_then_reparse:
  assumes valid: "tasks_in_sections (str_split CHR 0x0A (file_content f))"
    and t: "t \<in> set (getAllTasks (file_content f))" "\<not> completed t"
  shows "\<exists>i cell r.
           i < length (str_split CHR 0x0A (file_content f)) \<and>
           str_split CHR 0x0A (file_content f) ! i = ''- ['' @ cell @ ''] '' @ r \<and>
           list_all is_space cell \<and>
           fst (markTaskAsCompleted (id t) f) = Inr () \<and>
           write_count (snd (markTaskAsCompleted (id t) f)) = Suc (write_count f) \<and>
           str_split CHR 0x0A (file_content (snd (markTaskAsCompleted (id t) f))) =
             (str_split CHR 0x0A (file_content f))[i := ''- [x] '' @ r] \<and>
           length (filter completed (getAllTasks (file_content (snd (markTaskAsCompleted (id t) f))))) =
             Suc (length (filter completed (getAllTasks (file_content f))))"
proof -
  let ?ls = "str_split CHR 0x0A (file_content f)"
  from t(1) have "t \<in> set (concat (map tasks (parse_lines ?ls)))"
    by (simp add: getAllTasks_def parseTasks_def)
  from parse_lines_from_line [OF this] obtain l where "l \<in> set ?ls" "from_line t l" by blast
  with t(2) have "\<exists>l\<in>set ?ls. line_matches (id t) l"
    using from_line_matches by blast
  from mark_lines_some [OF this] obtain i where i: "i < length ?ls"
    and lm: "line_matches (id t) (?ls ! i)"
    and ml: "mark_lines (id t) ?ls = (?ls[i := replace_checkbox (?ls ! i)], True)" by blast
  from line_matches_shape [OF lm] obtain cell r where shape: "?ls ! i = ''- ['' @ cell @ ''] '' @ r"
    and cell: "list_all is_space cell" and r: "r \<noteq> []" "\<not> list_ex is_line_terminator r" by blast
  let ?new = "''- [x] '' @ r"
  let ?ls' = "?ls[i := ?new]"
  from shape cell have rc: "replace_checkbox (?ls ! i) = ?new"
    by (simp only: replace_checkbox_unchecked)
  from ml rc have res: "markTaskAsCompleted (id t) f = (Inr (), writeFile (str_join [CHR 0x0A] ?ls') f)"
    by (simp add: markTaskAsCompleted_def)
  have nonl: "\<forall>l\<in>set ?ls'. CHR 0x0A \<notin> set l"
  proof
    fix l assume "l \<in> set ?ls'"
    then have "l = ?new \<or> l \<in> set ?ls"
      using set_update_subset_insert [of ?ls i ?new] by auto
    then show "CHR 0x0A \<notin> set l"
      using newline_terminator [OF r(2)] str_split_lines_no_sep [of l "CHR 0x0A" "file_content f"]
      by auto
  qed
  have ne: "?ls' \<noteq> []"
    using str_split_not_Nil [of "CHR 0x0A" "file_content f"] by simp
  have split': "str_split CHR 0x0A (str_join [CHR 0x0A] ?ls') = ?ls'"
    using str_split_str_join [OF ne nonl] .
  have sw: "starts_with ''- ['' (?ls ! i)"
    by (simp add: shape starts_with_def)
  from heading_before [OF valid i sw] have hb: "\<exists>j<i. is_heading (?ls ! j)" .
  have nh: "\<not> is_heading (?ls ! i)"
    using sw by (rule bullet_not_heading)
  have nh': "\<not> is_heading ?new"
    by (rule bullet_not_heading) (simp add: starts_with_def)
  have nc: "\<not> is_completed_task_line (?ls ! i)"
    unfolding shape using cell by (rule unchecked_not_completed)
  have c': "is_completed_task_line ?new"
    using r by (rule flipped_is_completed)
  from completed_lines_update [OF i nh nh' nc c', of False] hb
  have "completed_lines False ?ls' = Suc (completed_lines False ?ls)" by simp
  then have cnt: "completed_count (parse_lines ?ls') = Suc (completed_count (parse_lines ?ls))"
    by (simp add: completed_count_parse_lines)
  from res split' cnt i shape cell show ?thesis
    by (simp add: writeFile_def getAllTasks_def parseTasks_def completed_count_def) blast
qed


theorem mark_then_reparse_witness:
  "tasks_in_sections (str_split CHR 0x0A (file_content open_task_file)) \<and>
   open_task \<in> set (getAllTasks (file_content open_task_file)) \<and>
   \<not> completed open_task \<and>
   (\<exists>i cell r.
      i < length (str_split CHR 0x0A (file_content open_task_file)) \<and>
      str_split CHR 0x0A (file_content open_task_file) ! i = ''- ['' @ cell @ ''] '' @ r \<and>
      list_all is_space cell \<and>
      fst (markTaskAsCompleted (id open_task) open_task_file) = Inr () \<and>
      write_count (snd (markTaskAsCompleted (id open_task) open_task_file)) =
        Suc (write_count open_task_file) \<and>
      str_split CHR 0x0A (file_content (snd (markTaskAsCompleted (id open_task) open_task_file))) =
        (str_split CHR 0x0A (file_content open_task_file))[i := ''- [x] '' @ r] \<and>
      length (filter completed
        (getAllTasks (file_content (snd (markTaskAsCompleted (id open_task) open_task_file))))) =
        Suc (length (filter completed (getAllTasks (file_content open_task_file))))) \<and>
   markTaskAsCompleted ''2'' open_task_file =
     (Inr (),
      \<lparr> file_content =
          ''# Plan'' @ [CHR 0x0A] @ ''## A'' @ [CHR 0x0A] @ ''- [x] 1. One'' @ [CHR 0x0A] @
          ''  - detail'' @ [CHR 0x0A] @ ''- [x] 2. Two'' @ [CHR 0x0A] @ ''- [ ] 3. Three'',
        write_count = 1 \<rparr>)"
proof -
  have v: "tasks_in_sections (str_split CHR 0x0A (file_content open_task_file))"
    by code_simp
  have m: "open_task \<in> set (getAllTasks (file_content open_task_file))"
    by code_simp
  have n: "\<not> completed open_task"
    by code_simp
  have e: "markTaskAsCompleted ''2'' open_task_file =
     (Inr (),
      \<lparr> file_content =
          ''# Plan'' @ [CHR 0x0A] @ ''## A'' @ [CHR 0x0A] @ ''- [x] 1. One'' @ [CHR 0x0A] @
          ''  - detail'' @ [CHR 0x0A] @ ''- [x] 2. Two'' @ [CHR 0x0A] @ ''- [ ] 3. Three'',
        write_count = 1 \<rparr>)"
    by code_simp
  from mark_then_reparse [OF v m n] v m n e show ?thesis
    by blast
qed

text \<open>
  C3 as stated fails for a document with an open task line above the first heading. The
  parse result has one open task, with id 1; \<^verbatim>\<open>markTaskAsCompleted\<close> with that id flips
  the line above the heading, which the parser drops, and the parse result of the new
  text has no completed task.
\<close>

theorem mark_then_reparse_counterexample:
  "getAllTasks early_open_document =
     [\<lparr> id = ''1'', title = ''1. Inside'', description = [], completed = False,
        requirements = [], subtasks = [] \<rparr>] \<and>
   markTaskAsCompleted ''1'' \<lparr> file_content = early_open_document, write_count = 0 \<rparr> =
     (Inr (),
      \<lparr> file_content = ''- [x] 1. Early'' @ [CHR 0x0A] @ ''## A'' @ [CHR 0x0A] @ ''- [ ] 1. Inside'',
        write_count = 1 \<rparr>) \<and>
   length (filter completed
     (getAllTasks (''- [x] 1. Early'' @ [CHR 0x0A] @ ''## A'' @ [CHR 0x0A] @ ''- [ ] 1. Inside''))) = 0"
  by code_simp

section \<open>The PR context\<close>

text \<open>
  C8. \<^verbatim>\<open>getPRContext\<close> returns an enabled context exactly when the run is flagged as PR
  mode, the PR number parses to a number that is not zero, and the branch is not empty;
  the enabled context carries that number and branch, and nothing is warned. When the flag
  is set and the number is missing, not a number or zero, or the branch is missing or
  empty, the result is the disabled context with one warning. Without the flag it is the
  disabled context with no warning. The function has a result for every environment: it
  has no way to throw.
\<close>

theorem getPRContext_enabled:
  "(isEnabled (fst (getPRContext e)) \<longleftrightarrow>
      e ''USTA_PR_MODE'' = Some ''true'' \<and>
      (\<exists>n. parseInt (or_default (e ''USTA_PR_NUMBER'') ''0'') = Some n \<and> n \<noteq> 0) \<and>
      or_default (e ''USTA_PR_BRANCH'') [] \<noteq> []) \<and>
   (isEnabled (fst (getPRContext e)) \<longrightarrow>
      parseInt (or_default (e ''USTA_PR_NUMBER'') ''0'') = Some (number (fst (getPRContext e))) \<and>
      number (fst (getPRContext e)) \<noteq> 0 \<and>
      branch (fst (getPRContext e)) = or_default (e ''USTA_PR_BRANCH'') [] \<and>
      branch (fst (getPRContext e)) \<noteq> [] \<and>
      snd (getPRContext e) = []) \<and>
   (e ''USTA_PR_MODE'' = Some ''true'' \<and>
    (parseInt (or_default (e ''USTA_PR_NUMBER'') ''0'') = None \<or>
     parseInt (or_default (e ''USTA_PR_NUMBER'') ''0'') = Some 0 \<or>
     or_default (e ''USTA_PR_BRANCH'') [] = []) \<longrightarrow>
      getPRContext e = (disabled_context, [MissingPRContext])) \<and>
   (e ''USTA_PR_MODE'' \<noteq> Some ''true'' \<longrightarrow> getPRContext e = (disabled_context, []))"
  by (auto simp: getPRContext_def disabled_context_def Let_def split: option.splits)

theorem getPRContext_enabled_witness:
  "isEnabled (fst (getPRContext pr_env)) \<and>
   number (fst (getPRContext pr_env)) = 123 \<and>
   branch (fst (getPRContext pr_env)) = ''feature-branch'' \<and>
   pr_env_no_number ''USTA_PR_MODE'' = Some ''true'' \<and>
   parseInt (or_default (pr_env_no_number ''USTA_PR_NUMBER'') ''0'') = Some 0 \<and>
   getPRContext pr_env_no_number = (disabled_context, [MissingPRContext])"
proof -
  have m: "pr_env ''USTA_PR_MODE'' = Some ''true''"
    by code_simp
  have n: "parseInt (or_default (pr_env ''USTA_PR_NUMBER'') ''0'') = Some 123"
    by code_simp
  have b: "or_default (pr_env ''USTA_PR_BRANCH'') [] = ''feature-branch''"
    by code_simp
  have m': "pr_env_no_number ''USTA_PR_MODE'' = Some ''true''"
    by code_simp
  have n': "parseInt (or_default (pr_env_no_number ''USTA_PR_NUMBER'') ''0'') = Some 0"
    by code_simp
  from getPRContext_enabled [of pr_env] m n b
  have "isEnabled (fst (getPRContext pr_env)) \<and> number (fst (getPRContext pr_env)) = 123 \<and>
        branch (fst (getPRContext pr_env)) = ''feature-branch''"
    by simp
  moreover from getPRContext_enabled [of pr_env_no_number] m' n'
  have "getPRContext pr_env_no_number = (disabled_context, [MissingPRContext])"
    by simp
  ultimately show ?thesis using m' n' by simp
qed

section \<open>Resolving a bare spec name\<close>

lemma getSpecPath_bare:
  assumes "sname \<noteq> []" "\<not> isAbsolute P sname"
    "CHR ''/'' \<notin> set sname" "CHR 0x5C \<notin> set sname"
  shows "getSpecPath P F (Some sname) =
     (case fuzzyMatchSpec P F (basename P (strip_extension sname))
             (path_join P [cwd F, ''.usta'', ''specs'']) of
        Inl e \<Rightarrow> Inl e
      | Inr fuzzyMatch \<Rightarrow>
          if truthy fuzzyMatch then Inr (the fuzzyMatch) else Inl (SpecNotFound sname))"
  using assms by (simp add: getSpecPath_def truthy_def Let_def)

lemma find_first_None: "(\<forall>x\<in>set xs. \<not> p x) \<Longrightarrow> find_first p xs = None"
  by (induction xs) auto

lemma fuzzyMatchSpec_fuzzy:
  assumes "readdir F specsDir = Inr entries"
    and "\<forall>dir\<in>set (directories_of P F specsDir entries). toLowerCase dir \<noteq> toLowerCase searchTerm"
  shows "fuzzyMatchSpec P F searchTerm specsDir =
     (let ms = fuzzyMatches searchTerm (directories_of P F specsDir entries)
      in if length ms = 1 \<and> hd ms \<noteq> [] then Inr (Some (path_join P [specsDir, hd ms]))
         else if length ms > 1 then Inl (MultipleSpecs searchTerm ms)
         else Inr None)"
proof -
  let ?dirs = "directories_of P F specsDir entries"
  from assms(2) have "\<forall>dir\<in>set ?dirs. dir \<noteq> searchTerm" by auto
  then have e: "find_first (\<lambda>dir. dir = searchTerm) ?dirs = None"
    by (intro find_first_None) simp
  have c: "find_first (\<lambda>dir. toLowerCase dir = toLowerCase searchTerm) ?dirs = None"
    using assms(2) by (intro find_first_None) simp
  show ?thesis
    using assms(1) e c
    by (simp add: fuzzyMatchSpec_def Let_def truthy_def error_code_def)
qed

text \<open>
  C6, as amended. For a bare spec name (not empty, not absolute, without a slash or a
  backslash) whose search term equals no directory of the specs root, also when case is
  ignored: a directory is a match when its name in lower case contains the search term in
  lower case, or is contained in it. With exactly one match the resolution returns that
  directory; with two or more it throws the error that lists all the matches; with none it
  throws the error of a spec that is not found.
\<close>

theorem fuzzy_resolution:
  fixes P :: node_path and F :: file_system and sname :: string
  defines "specsDir \<equiv> path_join P [cwd F, ''.usta'', ''specs'']"
    and "searchTerm \<equiv> basename P (strip_extension sname)"
  assumes bare: "sname \<noteq> []" "\<not> isAbsolute P sname"
      "CHR ''/'' \<notin> set sname" "CHR 0x5C \<notin> set sname"
    and rd: "readdir F specsDir = Inr entries"
    and nci: "\<forall>dir\<in>set (directories_of P F specsDir entries). toLowerCase dir \<noteq> toLowerCase searchTerm"
  shows "(\<forall>d. fuzzyMatches searchTerm (directories_of P F specsDir entries) = [d] \<and> d \<noteq> [] \<and>
              path_join P [specsDir, d] \<noteq> [] \<longrightarrow>
            getSpecPath P F (Some sname) = Inr (path_join P [specsDir, d])) \<and>
         (length (fuzzyMatches searchTerm (directories_of P F specsDir entries)) > 1 \<longrightarrow>
            getSpecPath P F (Some sname) =
              Inl (MultipleSpecs searchTerm (fuzzyMatches searchTerm (directories_of P F specsDir entries)))) \<and>
         (fuzzyMatches searchTerm (directories_of P F specsDir entries) = [] \<longrightarrow>
            getSpecPath P F (Some sname) = Inl (SpecNotFound sname))"
  using getSpecPath_bare [OF bare, of F] fuzzyMatchSpec_fuzzy [OF rd nci]
  by (auto simp: specsDir_def searchTerm_def truthy_def Let_def)

text \<open>
  C6 as stated fails, since a directory whose name is contained in the search term is a
  match too. No directory name contains \<^verbatim>\<open>auth\<close>, yet \<^verbatim>\<open>auth\<close> resolves to the directory
  \<^verbatim>\<open>au\<close>; and exactly one of \<^verbatim>\<open>my-auth-spec\<close> and \<^verbatim>\<open>th\<close> contains \<^verbatim>\<open>auth\<close>, yet the
  resolution fails with both as matches.
\<close>

theorem fuzzy_resolution_counterexample:
  "filter (\<lambda>dir. str_includes (toLowerCase dir) (toLowerCase ''auth'')) [''au''] = [] \<and>
   getSpecPath simple_path (specs_fs [''au'']) (Some ''auth'') = Inr ''/work/.usta/specs/au'' \<and>
   filter (\<lambda>dir. str_includes (toLowerCase dir) (toLowerCase ''auth'')) [''my-auth-spec'', ''th''] =
     [''my-auth-spec''] \<and>
   getSpecPath simple_path (specs_fs [''my-auth-spec'', ''th'']) (Some ''auth'') =
     Inl (MultipleSpecs ''auth'' [''my-auth-spec'', ''th''])"
  by code_simp

theorem fuzzy_resolution_witness:
  "fuzzyMatches ''auth'' [''my-auth-spec'', ''other''] = [''my-auth-spec''] \<and>
   getSpecPath simple_path (specs_fs [''my-auth-spec'', ''other'']) (Some ''auth'') =
     Inr ''/work/.usta/specs/my-auth-spec'' \<and>
   fuzzyMatches ''auth'' [''my-auth-spec'', ''auth-two''] = [''my-auth-spec'', ''auth-two''] \<and>
   getSpecPath simple_path (specs_fs [''my-auth-spec'', ''auth-two'']) (Some ''auth'') =
     Inl (MultipleSpecs ''auth'' [''my-auth-spec'', ''auth-two'']) \<and>
   fuzzyMatches ''zzz'' [''my-auth-spec'', ''auth-two''] = [] \<and>
   getSpecPath simple_path (specs_fs [''my-auth-spec'', ''auth-two'']) (Some ''zzz'') =
     Inl (SpecNotFound ''zzz'')"
proof -
  let ?P = simple_path
  have sd: "path_join ?P [cwd (specs_fs ds), ''.usta'', ''specs''] = ''/work/.usta/specs''" for ds
    by (simp add: simple_path_def specs_fs_def)
  have bare: "''auth'' \<noteq> []" "\<not> isAbsolute ?P ''auth''" "CHR ''/'' \<notin> set ''auth''"
    "CHR 0x5C \<notin> set ''auth''" "basename ?P (strip_extension ''auth'') = ''auth''"
    by code_simp+
  have barez: "''zzz'' \<noteq> []" "\<not> isAbsolute ?P ''zzz''" "CHR ''/'' \<notin> set ''zzz''"
    "CHR 0x5C \<notin> set ''zzz''" "basename ?P (strip_extension ''zzz'') = ''zzz''"
    by code_simp+
  have rd: "readdir (specs_fs ds) ''/work/.usta/specs'' = Inr ds" for ds
    by (simp add: specs_fs_def)
  have d1: "directories_of ?P (specs_fs [''my-auth-spec'', ''other'']) ''/work/.usta/specs''
              [''my-auth-spec'', ''other''] = [''my-auth-spec'', ''other'']"
    by code_simp
  have d2: "directories_of ?P (specs_fs [''my-auth-spec'', ''auth-two'']) ''/work/.usta/specs''
              [''my-auth-spec'', ''auth-two''] = [''my-auth-spec'', ''auth-two'']"
    by code_simp
  have n1: "\<forall>dir\<in>set [''my-auth-spec'', ''other'']. toLowerCase dir \<noteq> toLowerCase ''auth''"
    by code_simp
  have n2: "\<forall>dir\<in>set [''my-auth-spec'', ''auth-two'']. toLowerCase dir \<noteq> toLowerCase ''auth''"
    by code_simp
  have n3: "\<forall>dir\<in>set [''my-auth-spec'', ''auth-two'']. toLowerCase dir \<noteq> toLowerCase ''zzz''"
    by code_simp
  have m1: "fuzzyMatches ''auth'' [''my-auth-spec'', ''other''] = [''my-auth-spec'']"
    by code_simp
  have m2: "fuzzyMatches ''auth'' [''my-auth-spec'', ''auth-two''] = [''my-auth-spec'', ''auth-two'']"
    by code_simp
  have m3: "fuzzyMatches ''zzz'' [''my-auth-spec'', ''auth-two''] = []"
    by code_simp
  have j: "path_join ?P [''/work/.usta/specs'', ''my-auth-spec''] = ''/work/.usta/specs/my-auth-spec''"
    by code_simp
  have r1: "getSpecPath ?P (specs_fs [''my-auth-spec'', ''other'']) (Some ''auth'') =
        Inr ''/work/.usta/specs/my-auth-spec''"
    using fuzzy_resolution [of "''auth''" ?P "specs_fs [''my-auth-spec'', ''other'']"
        "[''my-auth-spec'', ''other'']"] bare
    by (simp add: sd rd d1 n1 m1 j)
  have r2: "getSpecPath ?P (specs_fs [''my-auth-spec'', ''auth-two'']) (Some ''auth'') =
        Inl (MultipleSpecs ''auth'' [''my-auth-spec'', ''auth-two''])"
    using fuzzy_resolution [of "''auth''" ?P "specs_fs [''my-auth-spec'', ''auth-two'']"
        "[''my-auth-spec'', ''auth-two'']"] bare
    by (simp add: sd rd d2 n2 m2)
  have r3: "getSpecPath ?P (specs_fs [''my-auth-spec'', ''auth-two'']) (Some ''zzz'') =
        Inl (SpecNotFound ''zzz'')"
    using fuzzy_resolution [of "''zzz''" ?P "specs_fs [''my-auth-spec'', ''auth-two'']"
        "[''my-auth-spec'', ''auth-two'']"] barez
    by (simp add: sd rd d2 n3 m3)
  from r1 r2 r3 m1 m2 m3 show ?thesis by simp
qed


section \<open>The progress of a spec\<close>

text \<open>
  The counts of \<^verbatim>\<open>getTaskProgress\<close> are the number of completed tasks and the number of
  tasks; with no task the percentage is 0 and nothing is divided.
\<close>

lemma progress_counts:
  "completed_tasks (getTaskProgress content) = length (filter completed (getAllTasks content)) \<and>
   total (getTaskProgress content) = length (getAllTasks content) \<and>
   (total (getTaskProgress content) = 0 \<longrightarrow>
      completed_tasks (getTaskProgress content) = 0 \<and> percentage (getTaskProgress content) = 0)"
  by (simp add: getTaskProgress_def progress_of_tasks_def Let_def)

lemma percentage_of_tests:
  "math_round (js_times (js_divide 2 6) 100) = 33 \<and> math_round (js_times (js_divide 6 6) 100) = 100 \<and>
   math_round (js_times (js_divide 0 6) 100) = 0"
  by (simp add: js_divide_def js_times_def math_round_def nearest_double_def scaled_def Let_def)

lemma forty_tasks:
  "map completed (getAllTasks forty_task_document) = replicate 23 True @ replicate 17 False"
  by code_simp

lemma percentage_23_of_40: "math_round (js_times (js_divide 23 40) 100) = 57"
  by (simp add: js_divide_def js_times_def math_round_def nearest_double_def scaled_def Let_def)

text \<open>
  C7. For the document of 40 tasks with 23 completed, \<^verbatim>\<open>getTaskProgress\<close> gives the
  percentage 57: the double nearest to 23/40 lies below 0.575, its product with 100 is the
  double 57.49999999999999, and \<^verbatim>\<open>Math.round\<close> gives 57. The exact value of
  100 * 23 / 40 is 57.5, which rounds to 58.
\<close>

theorem progress_of_23_of_40:
  "getTaskProgress forty_task_document = \<lparr> completed_tasks = 23, total = 40, percentage = 57 \<rparr> \<and>
   exact_percentage 23 40 = 58"
proof -
  have l: "length (getAllTasks forty_task_document) = 40"
    using arg_cong [OF forty_tasks, of length] by simp
  have "length (filter completed (getAllTasks forty_task_document)) =
        length (filter (\<lambda>b. b) (map completed (getAllTasks forty_task_document)))"
    by (simp add: filter_map comp_def)
  also have "\<dots> = 23"
    by (simp add: forty_tasks)
  finally have c: "length (filter completed (getAllTasks forty_task_document)) = 23" .
  show ?thesis
    by (simp add: getTaskProgress_def progress_of_tasks_def Let_def l c percentage_23_of_40
        exact_percentage_def)
qed


section \<open>Updating the comment\<close>

lemma attempts_made_simps [simp]:
  "attempts_made [] = []"
  "attempts_made (xs @ ys) = attempts_made xs @ attempts_made ys"
  "attempts_made (Attempt n # xs) = n # attempts_made xs"
  "attempts_made (Spawn c args # xs) = attempts_made xs"
  "attempts_made (ConsoleLog a # xs) = attempts_made xs"
  "attempts_made (ConsoleError a err # xs) = attempts_made xs"
  "attempts_made (GitCommitAndPush a b # xs) = attempts_made xs"
  "attempts_made (GitRollback # xs) = attempts_made xs"
  "attempts_made (SetFailed err # xs) = attempts_made xs"
  "attempts_made (ProcessExit k # xs) = attempts_made xs"
  by (simp_all add: attempts_made_def)

lemma rollbacks_simps [simp]:
  "rollbacks [] = 0"
  "rollbacks (xs @ ys) = rollbacks xs + rollbacks ys"
  "rollbacks (Attempt n # xs) = rollbacks xs"
  "rollbacks (Spawn c args # xs) = rollbacks xs"
  "rollbacks (ConsoleLog a # xs) = rollbacks xs"
  "rollbacks (ConsoleError a err # xs) = rollbacks xs"
  "rollbacks (GitCommitAndPush a b # xs) = rollbacks xs"
  "rollbacks (GitRollback # xs) = Suc (rollbacks xs)"
  "rollbacks (SetFailed err # xs) = rollbacks xs"
  "rollbacks (ProcessExit k # xs) = rollbacks xs"
  by (simp_all add: rollbacks_def)

lemma updateComment_result: "fst (updateComment e bodyf curl m) = Inr ()"
  by (auto simp: updateComment_def try_catch_def Let_def split: prod.splits sum.splits)

lemma callGitHubAPI_events:
  "callGitHubAPI e curl method endpoint body = (r, evs) \<Longrightarrow>
   attempts_made evs = [] \<and> rollbacks evs = 0"
  by (auto simp: callGitHubAPI_def Let_def split: curl_outcome.splits if_splits)

lemma updateComment_events:
  "attempts_made (snd (updateComment e bodyf curl m)) = [] \<and>
   rollbacks (snd (updateComment e bodyf curl m)) = 0"
  by (auto simp: updateComment_def try_catch_def Let_def
      split: prod.splits sum.splits dest: callGitHubAPI_events)

lemma find_update_first:
  assumes "\<And>x. key (f x) = key x"
  shows "find_first (\<lambda>t. key t = k) (update_first (\<lambda>t. key t = k) f xs) =
         map_option f (find_first (\<lambda>t. key t = k) xs)"
  using assms by (induction xs) auto

lemma taskId_set_status [simp]: "taskId (set_status now st att t) = taskId t"
  by (simp add: set_status_def Let_def split: option.splits)

text \<open>
  C9. \<^verbatim>\<open>updateComment\<close> never throws. It does nothing when the PR context is disabled or has
  no comment id. Otherwise, without a token it logs the error of the missing token and
  spawns nothing; with a token it spawns \<^verbatim>\<open>curl\<close> once, and logs the success or the error
  of the call.
\<close>

theorem updateComment_never_throws:
  "fst (updateComment e bodyf curl m) = Inr () \<and>
   (\<not> isEnabled (pr_context m) \<or> or_default (commentId (pr_context m)) [] = [] \<longrightarrow>
      snd (updateComment e bodyf curl m) = []) \<and>
   (isEnabled (pr_context m) \<and> or_default (commentId (pr_context m)) [] \<noteq> [] \<longrightarrow>
      (or_default (e ''GITHUB_TOKEN'') [] = [] \<longrightarrow>
         snd (updateComment e bodyf curl m) = [ConsoleError ''Failed to update comment'' GitHubTokenMissing]) \<and>
      (or_default (e ''GITHUB_TOKEN'') [] \<noteq> [] \<longrightarrow>
         (\<exists>args.
            snd (updateComment e bodyf curl m) =
              (case curl of
                 CurlClose code out err \<Rightarrow>
                   if code = Some 0
                   then [Spawn ''curl'' args, ConsoleLog ''Updated comment with current progress'']
                   else [Spawn ''curl'' args, ConsoleError ''Failed to update comment'' (GitHubApiFailed err)]
               | CurlError err \<Rightarrow>
                   [Spawn ''curl'' args, ConsoleError ''Failed to update comment'' err]))))"
  by (auto simp: updateComment_def callGitHubAPI_def try_catch_def Let_def split: curl_outcome.splits)

theorem updateComment_never_throws_witness:
  "updateComment (env_of []) specName (CurlClose (Some 0) [] []) enabled_manager =
     (Inr (), [ConsoleError ''Failed to update comment'' GitHubTokenMissing]) \<and>
   updateComment (env_of []) specName (CurlClose (Some 0) [] []) (manager start_state) = (Inr (), [])"
proof -
  have a: "isEnabled (pr_context enabled_manager)" "or_default (commentId (pr_context enabled_manager)) [] \<noteq> []"
    "or_default (env_of [] ''GITHUB_TOKEN'') [] = []"
    by (simp_all add: enabled_manager_def or_default_def env_of_def)
  have b: "\<not> isEnabled (pr_context (manager start_state))"
    by (simp add: start_state_def disabled_context_def)
  from updateComment_never_throws [of "env_of []" specName "CurlClose (Some 0) [] []" enabled_manager] a
    updateComment_never_throws [of "env_of []" specName "CurlClose (Some 0) [] []" "manager start_state"] b
  show ?thesis by (simp add: prod_eq_iff)
qed


section \<open>The retry loop\<close>

lemma comment_events_simps [simp]:
  "attempts_made (comment_events w s) = []"
  "rollbacks (comment_events w s) = 0"
  by (simp_all add: comment_events_def updateComment_events)

lemma do_updateComment_eq:
  "do_updateComment w s = (Returned (), s\<lparr> events := events s @ comment_events w s \<rparr>)"
  using updateComment_result [of "process_env w" "body_of w" "net w (length (events s))" "manager s"]
  by (auto simp: do_updateComment_def comment_events_def call_def split: prod.splits sum.splits)

lemma progress_of_updateTaskStatus:
  "find_first (\<lambda>t. taskId t = tid) (progress_tasks (state (updateTaskStatus now tid st att m))) =
   map_option (set_status now st att) (find_first (\<lambda>t. taskId t = tid) (progress_tasks (state m)))"
  by (simp add: updateTaskStatus_def find_update_first)




lemmas step_defs =
  bind_def catch_def ret_def call_def emit_def process_exit_def gitRollback_def gitCommitAndPush_def
  do_updateTaskStatus_def do_setOverallStatus_def do_updateComment_eq

lemma overallStatus_updateTaskStatus [simp]:
  "overallStatus (state (updateTaskStatus now tid st att m)) = overallStatus (state m)"
  by (simp add: updateTaskStatus_def)




declare retry_loop.simps [simp del]

lemma retry_loop_stop:
  "retry_loop w task 3 c s = (Returned (3, c), s)"
  "retry_loop w task k True s = (Returned (k, True), s)"
  by (simp_all add: retry_loop.simps)

lemma retry_loop_step:
  assumes "k < 3" "attempt_step w task (Suc k) s = (Returned c, s')"
  shows "retry_loop w task k False s = retry_loop w task (Suc k) c s'"
  using assms by (simp add: retry_loop.simps [of w task k False s])

lemma retry_loop_thrown:
  assumes "k < 3" "attempt_step w task (Suc k) s = (Thrown e, s')"
  shows "retry_loop w task k False s = (Thrown e, s')"
  using assms by (simp add: retry_loop.simps [of w task k False s])



lemma failing_output:
  "\<not> containsTestSuccess (foldl capture_write capture_clear [''The task is not complete: '', ''the build fails''])"
  by code_simp



lemma overallStatus_setOverallStatus [simp]:
  "overallStatus (state (setOverallStatus now st m)) = st"
  by (simp add: setOverallStatus_def Let_def)

lemma progress_tasks_setOverallStatus [simp]:
  "progress_tasks (state (setOverallStatus now st m)) = progress_tasks (state m)"
  by (simp add: setOverallStatus_def Let_def)

lemma status_set_status [simp]: "status (set_status now st att t) = st"
  by (simp add: set_status_def Let_def split: option.splits)

lemma try_body_never:
  assumes "never_succeeds w"
  shows "\<exists>r s'. try_body w task n s = (r, s') \<and> (r = Returned False \<or> (\<exists>e. r = Thrown e)) \<and>
           attempts_made (events s') = attempts_made (events s) \<and>
           overallStatus (state (manager s')) = overallStatus (state (manager s)) \<and>
           (progress_of (id task) s \<noteq> None \<longrightarrow> progress_of (id task) s' \<noteq> None)"
proof (cases "preparePrompt_result (attempts w n)")
  case Inl
  then show ?thesis by (simp add: try_body_def bind_def call_def)
next
  case p1: Inr
  show ?thesis
  proof (cases "runClaude_work (attempts w n)")
    case Inl
    with p1 show ?thesis by (simp add: try_body_def bind_def call_def)
  next
    case p2: Inr
    show ?thesis
    proof (cases "createManualTestPrompt_result (attempts w n)")
      case Inl
      with p1 p2 show ?thesis
        by (simp add: try_body_def step_defs progress_of_def progress_of_updateTaskStatus)
    next
      case p3: Inr
      show ?thesis
      proof (cases "runClaude_test (attempts w n)")
        case Inl
        with p1 p2 p3 show ?thesis
          by (simp add: try_body_def step_defs progress_of_def progress_of_updateTaskStatus)
      next
        case (Inr chunks)
        with assms have nv: "\<not> containsTestSuccess (foldl capture_write capture_clear chunks)"
          by (auto simp: never_succeeds_def split: sum.splits dest: spec [of _ n])
        show ?thesis
        proof (cases "rollback_result (attempts w n)")
          case Inl
          with p1 p2 p3 Inr nv show ?thesis
            by (simp add: try_body_def step_defs Let_def progress_of_def progress_of_updateTaskStatus)
        next
          case p5: Inr
          with p1 p2 p3 Inr nv show ?thesis
            by (simp add: try_body_def step_defs Let_def progress_of_def progress_of_updateTaskStatus)
        qed
      qed
    qed
  qed
qed

lemma attempt_step_never:
  assumes "never_succeeds w"
  shows "\<exists>s'. (attempt_step w task n s = (Returned False, s') \<or>
                (\<exists>e. attempt_step w task n s = (Thrown e, s') \<and>
                     \<not> returns (handler_rollback_result (attempts w n)))) \<and>
           attempts_made (events s') = attempts_made (events s) @ [n] \<and>
           overallStatus (state (manager s')) = overallStatus (state (manager s)) \<and>
           (progress_of (id task) s \<noteq> None \<longrightarrow> progress_of (id task) s' \<noteq> None)"
proof -
  let ?s0 = "s\<lparr> events := events s @ [Attempt n] \<rparr>"
  let ?s1 = "?s0\<lparr> manager := updateTaskStatus (clock w (length (events ?s0))) (id task) Working (Some n)
                          (manager ?s0) \<rparr>"
  let ?s2 = "?s1\<lparr> events := events ?s1 @ comment_events w ?s1 \<rparr>"
  have step: "attempt_step w task n s =
      catch (try_body w task n)
        (\<lambda>err. bind (emit [ConsoleError ''Error on attempt'' err]) (\<lambda>_.
           bind (gitRollback (handler_rollback_result (attempts w n))) (\<lambda>_. ret False))) ?s2"
    by (simp add: attempt_step_def bind_def emit_def do_updateTaskStatus_def do_updateComment_eq)
  have base: "attempts_made (events ?s2) = attempts_made (events s) @ [n]"
    "overallStatus (state (manager ?s2)) = overallStatus (state (manager s))"
    "progress_of (id task) s \<noteq> None \<longrightarrow> progress_of (id task) ?s2 \<noteq> None"
    by (simp_all add: progress_of_def progress_of_updateTaskStatus)
  from try_body_never [OF assms, of task n ?s2] obtain r s3 where
    tb: "try_body w task n ?s2 = (r, s3)" and r: "r = Returned False \<or> (\<exists>e. r = Thrown e)"
    and k: "attempts_made (events s3) = attempts_made (events ?s2)"
      "overallStatus (state (manager s3)) = overallStatus (state (manager ?s2))"
      "progress_of (id task) ?s2 \<noteq> None \<longrightarrow> progress_of (id task) s3 \<noteq> None"
    by blast
  from r show ?thesis
  proof
    assume "r = Returned False"
    with tb step have "attempt_step w task n s = (Returned False, s3)"
      by (simp add: catch_def)
    with k base show ?thesis by auto
  next
    assume "\<exists>e. r = Thrown e"
    then obtain e where e: "r = Thrown e" ..
    let ?s4 = "s3\<lparr> events := events s3 @ [ConsoleError ''Error on attempt'' e, GitRollback] \<rparr>"
    have k4: "attempts_made (events ?s4) = attempts_made (events s) @ [n]"
      "overallStatus (state (manager ?s4)) = overallStatus (state (manager s))"
      "progress_of (id task) s \<noteq> None \<longrightarrow> progress_of (id task) ?s4 \<noteq> None"
      using k base by (simp_all add: progress_of_def)
    show ?thesis
    proof (cases "handler_rollback_result (attempts w n)")
      case (Inl e')
      with tb step e have "attempt_step w task n s = (Thrown e', ?s4)"
        by (simp add: catch_def bind_def emit_def gitRollback_def call_def)
      moreover from Inl have "\<not> returns (handler_rollback_result (attempts w n))"
        by (simp add: returns_def)
      ultimately show ?thesis using k4 by blast
    next
      case (Inr u)
      with tb step e have "attempt_step w task n s = (Returned False, ?s4)"
        by (simp add: catch_def bind_def emit_def gitRollback_def call_def ret_def)
      with k4 show ?thesis by blast
    qed
  qed
qed

lemma guarded_thrown:
  assumes "retry_loop w task 0 False s = (Thrown e, s1)"
  shows "guarded (retry_and_settle w task) s =
         (Exited 1, s1\<lparr> events := events s1 @ [SetFailed e, ProcessExit 1] \<rparr>)"
  using assms by (simp add: guarded_def retry_and_settle_def step_defs)

lemma settle_failed:
  assumes "retry_loop w task 0 False s = (Returned (k, False), s3)"
  shows "\<exists>s'. guarded (retry_and_settle w task) s = (Exited 1, s') \<and>
           attempts_made (events s') = attempts_made (events s3) \<and>
           overallStatus (state (manager s')) = RunFailed \<and>
           (progress_of (id task) s3 \<noteq> None \<longrightarrow>
              (\<exists>p. progress_of (id task) s' = Some p \<and> status p = Failed))"
  using assms
  by (auto simp: guarded_def retry_and_settle_def step_defs progress_of_def
      progress_of_updateTaskStatus)


text \<open>
  C1, as amended. When the agent never gives the success phrase for a task, the process
  exits with code 1 after one, two or three attempts, never a fourth. When moreover the
  rollback of the \<^verbatim>\<open>catch\<close> block does not throw in any of the three attempts, there are
  exactly three attempts, the run is marked as failed, and the entry of the task in the
  comment manager (when there is one) is marked as failed.
\<close>

theorem never_succeeding_agent:
  assumes "never_succeeds w"
  shows "\<exists>s'. guarded (retry_and_settle w task) s = (Exited 1, s') \<and>
           (attempts_made (events s') = attempts_made (events s) @ [1] \<or>
            attempts_made (events s') = attempts_made (events s) @ [1, 2] \<or>
            attempts_made (events s') = attempts_made (events s) @ [1, 2, 3]) \<and>
           (returns (handler_rollback_result (attempts w 1)) \<and>
            returns (handler_rollback_result (attempts w 2)) \<and>
            returns (handler_rollback_result (attempts w 3)) \<longrightarrow>
              attempts_made (events s') = attempts_made (events s) @ [1, 2, 3] \<and>
              overallStatus (state (manager s')) = RunFailed \<and>
              (progress_of (id task) s \<noteq> None \<longrightarrow>
                 (\<exists>p. progress_of (id task) s' = Some p \<and> status p = Failed)))"
proof -
  let ?h = "\<lambda>n. returns (handler_rollback_result (attempts w n))"
  from attempt_step_never [OF assms, of task "Suc 0" s] obtain s1 where
    r1: "attempt_step w task (Suc 0) s = (Returned False, s1) \<or>
         (\<exists>e. attempt_step w task (Suc 0) s = (Thrown e, s1) \<and> \<not> ?h 1)"
    and a1: "attempts_made (events s1) = attempts_made (events s) @ [1]"
    and p1: "progress_of (id task) s \<noteq> None \<longrightarrow> progress_of (id task) s1 \<noteq> None"
    by auto
  from attempt_step_never [OF assms, of task "Suc (Suc 0)" s1] obtain s2 where
    r2: "attempt_step w task (Suc (Suc 0)) s1 = (Returned False, s2) \<or>
         (\<exists>e. attempt_step w task (Suc (Suc 0)) s1 = (Thrown e, s2) \<and> \<not> ?h 2)"
    and a2: "attempts_made (events s2) = attempts_made (events s1) @ [2]"
    and p2: "progress_of (id task) s1 \<noteq> None \<longrightarrow> progress_of (id task) s2 \<noteq> None"
    by (auto simp: numeral_2_eq_2)
  from attempt_step_never [OF assms, of task "Suc (Suc (Suc 0))" s2] obtain s3 where
    r3: "attempt_step w task (Suc (Suc (Suc 0))) s2 = (Returned False, s3) \<or>
         (\<exists>e. attempt_step w task (Suc (Suc (Suc 0))) s2 = (Thrown e, s3) \<and> \<not> ?h 3)"
    and a3: "attempts_made (events s3) = attempts_made (events s2) @ [3]"
    and p3: "progress_of (id task) s2 \<noteq> None \<longrightarrow> progress_of (id task) s3 \<noteq> None"
    by (auto simp: numeral_3_eq_3)
  from r1 show ?thesis
  proof
    assume "\<exists>e. attempt_step w task (Suc 0) s = (Thrown e, s1) \<and> \<not> ?h 1"
    then obtain e where e: "attempt_step w task (Suc 0) s = (Thrown e, s1)" and nh: "\<not> ?h 1"
      by blast
    have "retry_loop w task 0 False s = (Thrown e, s1)"
      using e by (intro retry_loop_thrown) simp_all
    from guarded_thrown [OF this] a1 nh show ?thesis by simp
  next
    assume ok1: "attempt_step w task (Suc 0) s = (Returned False, s1)"
    have l1: "retry_loop w task 0 False s = retry_loop w task (Suc 0) False s1"
      using ok1 by (intro retry_loop_step) simp_all
    from r2 show ?thesis
    proof
      assume "\<exists>e. attempt_step w task (Suc (Suc 0)) s1 = (Thrown e, s2) \<and> \<not> ?h 2"
      then obtain e where e: "attempt_step w task (Suc (Suc 0)) s1 = (Thrown e, s2)"
        and nh: "\<not> ?h 2" by blast
      have "retry_loop w task (Suc 0) False s1 = (Thrown e, s2)"
        using e by (intro retry_loop_thrown) simp_all
      with l1 have "retry_loop w task 0 False s = (Thrown e, s2)" by simp
      from guarded_thrown [OF this] a1 a2 nh show ?thesis by simp
    next
      assume ok2: "attempt_step w task (Suc (Suc 0)) s1 = (Returned False, s2)"
      have l2: "retry_loop w task (Suc 0) False s1 = retry_loop w task (Suc (Suc 0)) False s2"
        using ok2 by (intro retry_loop_step) simp_all
      from r3 show ?thesis
      proof
        assume "\<exists>e. attempt_step w task (Suc (Suc (Suc 0))) s2 = (Thrown e, s3) \<and> \<not> ?h 3"
        then obtain e where e: "attempt_step w task (Suc (Suc (Suc 0))) s2 = (Thrown e, s3)"
          and nh: "\<not> ?h 3" by blast
        have "retry_loop w task (Suc (Suc 0)) False s2 = (Thrown e, s3)"
          using e by (intro retry_loop_thrown) simp_all
        with l1 l2 have "retry_loop w task 0 False s = (Thrown e, s3)" by simp
        from guarded_thrown [OF this] a1 a2 a3 nh show ?thesis by simp
      next
        assume ok3: "attempt_step w task (Suc (Suc (Suc 0))) s2 = (Returned False, s3)"
        have "retry_loop w task (Suc (Suc 0)) False s2 = retry_loop w task (Suc (Suc (Suc 0))) False s3"
          using ok3 by (intro retry_loop_step) simp_all
        also have "\<dots> = (Returned (3, False), s3)"
          using retry_loop_stop(1) [of w task False s3] by (simp add: numeral_3_eq_3)
        finally have "retry_loop w task 0 False s = (Returned (3, False), s3)"
          using l1 l2 by simp
        from settle_failed [OF this] a1 a2 a3 p1 p2 p3 show ?thesis by auto
      qed
    qed
  qed
qed


lemma never_succeeds_failing_world: "never_succeeds failing_world"
  using failing_output
  by (simp add: never_succeeds_def failing_world_def world_of_def failing_attempt_def)

lemma never_succeeds_broken_git_world: "never_succeeds broken_git_world"
  using failing_output
  by (simp add: never_succeeds_def broken_git_world_def world_of_def broken_git_attempt_def
      failing_attempt_def)

lemma broken_git_first_attempt:
  "\<exists>s1. attempt_step broken_git_world scenario_task (Suc 0) start_state =
           (Thrown (OtherError ''git reset failed with code 128''), s1) \<and>
         attempts_made (events s1) = [1] \<and>
         overallStatus (state (manager s1)) = Running \<and>
         map_option status (progress_of ''1'' s1) = Some Testing"
  using failing_output
  by (simp add: attempt_step_def try_body_def step_defs Let_def broken_git_world_def world_of_def
      broken_git_attempt_def failing_attempt_def start_state_def scenario_task_def progress_of_def
      progress_of_updateTaskStatus initial_progress_def)

text \<open>
  C1 as stated fails: the agent never gives the success phrase, the rollback after the
  failed verification throws, and so does the rollback of the \<^verbatim>\<open>catch\<close> block. The
  process exits with code 1 after one attempt; the run is still marked as running and the
  task as testing.
\<close>

theorem never_succeeding_agent_counterexample:
  "never_succeeds broken_git_world \<and>
   fst (guarded (retry_and_settle broken_git_world scenario_task) start_state) = Exited 1 \<and>
   attempts_made (events (snd (guarded (retry_and_settle broken_git_world scenario_task) start_state))) = [1] \<and>
   overallStatus (state (manager (snd (guarded (retry_and_settle broken_git_world scenario_task) start_state)))) = Running \<and>
   map_option status (progress_of ''1'' (snd (guarded (retry_and_settle broken_git_world scenario_task) start_state))) = Some Testing"
proof -
  from broken_git_first_attempt obtain s1 where
    a: "attempt_step broken_git_world scenario_task (Suc 0) start_state =
          (Thrown (OtherError ''git reset failed with code 128''), s1)"
    and k: "attempts_made (events s1) = [1]" "overallStatus (state (manager s1)) = Running"
      "map_option status (progress_of ''1'' s1) = Some Testing"
    by blast
  have "retry_loop broken_git_world scenario_task 0 False start_state =
          (Thrown (OtherError ''git reset failed with code 128''), s1)"
    using a by (intro retry_loop_thrown) simp_all
  from guarded_thrown [OF this] k never_succeeds_broken_git_world show ?thesis
    by (simp add: progress_of_def)
qed

theorem never_succeeding_agent_witness:
  "never_succeeds failing_world \<and>
   returns (handler_rollback_result (attempts failing_world 1)) \<and>
   returns (handler_rollback_result (attempts failing_world 2)) \<and>
   returns (handler_rollback_result (attempts failing_world 3)) \<and>
   fst (guarded (retry_and_settle failing_world scenario_task) start_state) = Exited 1 \<and>
   attempts_made (events (snd (guarded (retry_and_settle failing_world scenario_task) start_state))) = [1, 2, 3] \<and>
   overallStatus (state (manager (snd (guarded (retry_and_settle failing_world scenario_task) start_state)))) = RunFailed \<and>
   map_option status (progress_of ''1'' (snd (guarded (retry_and_settle failing_world scenario_task) start_state))) = Some Failed"
proof -
  have h: "returns (handler_rollback_result (attempts failing_world 1))"
    "returns (handler_rollback_result (attempts failing_world 2))"
    "returns (handler_rollback_result (attempts failing_world 3))"
    by (simp_all add: failing_world_def world_of_def failing_attempt_def returns_def)
  have k: "progress_of (id scenario_task) start_state \<noteq> None" "id scenario_task = ''1''"
    "attempts_made (events start_state) = []"
    by (simp_all add: start_state_def scenario_task_def progress_of_def initial_progress_def)
  from never_succeeding_agent [OF never_succeeds_failing_world, of scenario_task start_state] h k
  obtain s' p where "guarded (retry_and_settle failing_world scenario_task) start_state = (Exited 1, s')"
    "attempts_made (events s') = [1, 2, 3]" "overallStatus (state (manager s')) = RunFailed"
    "progress_of ''1'' s' = Some p" "status p = Failed"
    by auto
  with never_succeeds_failing_world h show ?thesis by simp
qed


end
